theory Spec2Isabelle
  imports Main "HOL-Library.Sublist" "HOL-Library.AList"
begin

section \<open>JavaScript values\<close>

text \<open>
  The program of \<^verbatim>\<open>src/lib/snyk-to-html.ts\<close> works on the result of \<^verbatim>\<open>JSON.parse\<close>:
  values without a static type. \<open>jsval\<close> holds the values \<^verbatim>\<open>JSON.parse\<close> produces
  (null, booleans, numbers, strings, arrays, objects) and the two further values the
  program's own expressions produce from them: \<^verbatim>\<open>undefined\<close> (a property that is not
  there) and \<^verbatim>\<open>NaN\<close> (a sum with \<^verbatim>\<open>undefined\<close>). An object is the list of its own
  properties; \<open>map_of\<close> reads one. A string is the list of its characters; the one
  pattern the program searches for is ASCII, so that the position of a match does not
  depend on the encoding of the other characters.

  The program computes with lengths and counts, and \<open>JNum n\<close> is a number that is an
  integer. A JavaScript number is an IEEE double: it holds every integer of absolute
  value at most \<open>2 ^ 53\<close> exactly, its \<^verbatim>\<open>+\<close> is the sum of integers when the operands
  and the sum are within this bound, and it prints such an integer with all its digits.
  Beyond the bound JavaScript rounds sums and digits and \<open>jsval\<close> does not, and a
  fraction has no value in \<open>jsval\<close>: \<open>JNum n\<close> stands for a number of the program
  only within the bound, and a statement about the value of a sum carries the bound as
  a hypothesis.
\<close>

datatype jsval =
    JUndefined
  | JNull
  | JBool bool
  | JNum int
  | JNaN
  | JStr string
  | JArr "jsval list"
  | JObj "(string \<times> jsval) list"

datatype error = TypeError | IOError | SyntaxError | TemplateError

text \<open>Truthiness, as \<^verbatim>\<open>if (v)\<close>, \<^verbatim>\<open>!v\<close>, \<^verbatim>\<open>a || b\<close> and \<^verbatim>\<open>a && b\<close> read it.\<close>

fun truthy :: "jsval \<Rightarrow> bool" where
  "truthy JUndefined = False"
| "truthy JNull = False"
| "truthy (JBool b) = b"
| "truthy (JNum n) = (n \<noteq> 0)"
| "truthy JNaN = False"
| "truthy (JStr s) = (s \<noteq> [])"
| "truthy (JArr xs) = True"
| "truthy (JObj kvs) = True"

definition jsOr :: "jsval \<Rightarrow> jsval \<Rightarrow> jsval" where
  "jsOr a b = (if truthy a then a else b)"

fun isArray :: "jsval \<Rightarrow> bool" where
  "isArray (JArr xs) = True"
| "isArray v = False"

fun nullish :: "jsval \<Rightarrow> bool" where
  "nullish JUndefined = True"
| "nullish JNull = True"
| "nullish v = False"

subsection \<open>Conversion to a string\<close>

definition digit :: "nat \<Rightarrow> char" where
  "digit n = ''0123456789'' ! n"

fun showNat :: "nat \<Rightarrow> string" where
  "showNat n = (if n < 10 then [digit n] else showNat (n div 10) @ [digit (n mod 10)])"

declare showNat.simps [simp del]

definition showInt :: "int \<Rightarrow> string" where
  "showInt i = (if i < 0 then CHR ''-'' # showNat (nat (- i)) else showNat (nat i))"

fun joinWith :: "string \<Rightarrow> string list \<Rightarrow> string" where
  "joinWith sep [] = []"
| "joinWith sep [s] = s"
| "joinWith sep (s # t # ss) = s @ sep @ joinWith sep (t # ss)"

text \<open>
  The conversion of a value to a string: of a value used as a property key
  (\<^verbatim>\<open>result[vuln.id]\<close>), of an operand of \<^verbatim>\<open>+\<close> beside a string, of an element in
  \<^verbatim>\<open>join\<close>. An array is its elements joined by a comma, \<^verbatim>\<open>null\<close> and \<^verbatim>\<open>undefined\<close>
  elements being empty; a plain object is \<^verbatim>\<open>[object Object]\<close>, which its inherited
  \<^verbatim>\<open>toString\<close> returns. An object that has an own property \<^verbatim>\<open>toString\<close> hides the
  inherited method behind a value that cannot be called (no parsed value is a function),
  and the inherited \<^verbatim>\<open>valueOf\<close> returns the object itself: the conversion raises a
  TypeError. \<open>stringable\<close> says that no such object is met; \<open>toStr\<close> is the string
  then. The digits of \<open>JNum n\<close> are those JavaScript prints for an integer within
  \<open>2 ^ 53\<close> (beyond, it prints rounded digits, and an exponent from \<open>10 ^ 21\<close> on).
\<close>

fun stringable :: "jsval \<Rightarrow> bool" where
  "stringable (JArr xs) = list_all stringable xs"
| "stringable (JObj kvs) = (map_of kvs ''toString'' = None)"
| "stringable v = True"

fun toStr :: "jsval \<Rightarrow> string"
  and elemStr :: "jsval \<Rightarrow> string" where
  "toStr JUndefined = ''undefined''"
| "toStr JNull = ''null''"
| "toStr (JBool b) = (if b then ''true'' else ''false'')"
| "toStr (JNum n) = showInt n"
| "toStr JNaN = ''NaN''"
| "toStr (JStr s) = s"
| "toStr (JArr xs) = joinWith '','' (map elemStr xs)"
| "toStr (JObj kvs) = ''[object Object]''"
| "elemStr v = (if nullish v then [] else toStr v)"

definition jsToString :: "jsval \<Rightarrow> error + string" where
  "jsToString v = (if stringable v then Inr (toStr v) else Inl TypeError)"

text \<open>\<^verbatim>\<open>xs.join(sep)\<close>.\<close>

definition joinJs :: "string \<Rightarrow> jsval list \<Rightarrow> error + string" where
  "joinJs sep xs =
     (if list_all stringable xs then Inr (joinWith sep (map elemStr xs)) else Inl TypeError)"

subsection \<open>Reading a property\<close>

text \<open>
  \<open>readProp v k\<close> is \<^verbatim>\<open>v.k\<close> for a value \<open>v\<close> that is neither \<^verbatim>\<open>null\<close> nor
  \<^verbatim>\<open>undefined\<close>, for the property names the program reads from its data:
  \<^verbatim>\<open>id title name info severity description fixedIn packageManager vulnerabilities
  dependencyCount path length\<close>. None of them is a member of a prototype, so the value
  is the own property or \<^verbatim>\<open>undefined\<close>; an array and a string own \<^verbatim>\<open>length\<close>.
  \<open>getProp\<close> adds the TypeError of a read from \<^verbatim>\<open>null\<close> or \<^verbatim>\<open>undefined\<close>.
\<close>

fun readProp :: "jsval \<Rightarrow> string \<Rightarrow> jsval" where
  "readProp (JObj kvs) k = (case map_of kvs k of Some v \<Rightarrow> v | None \<Rightarrow> JUndefined)"
| "readProp (JArr xs) k = (if k = ''length'' then JNum (int (length xs)) else JUndefined)"
| "readProp (JStr s) k = (if k = ''length'' then JNum (int (length s)) else JUndefined)"
| "readProp v k = JUndefined"

definition getProp :: "jsval \<Rightarrow> string \<Rightarrow> error + jsval" where
  "getProp v k = (if nullish v then Inl TypeError else Inr (readProp v k))"

text \<open>
  A read \<^verbatim>\<open>o[k]\<close> with a computed key, from an object the program itself built as an
  object literal, finds an own property, or a member the object inherits from
  \<^verbatim>\<open>Object.prototype\<close>, or nothing. The inherited members are those of the
  JavaScript runtime (Node.js); each of them is a function or an object, hence truthy.
\<close>

datatype 'a lookup = Own 'a | Inherited string | Absent

definition objectPrototypeKeys :: "string list" where
  "objectPrototypeKeys =
     [''constructor'', ''__defineGetter__'', ''__defineSetter__'', ''hasOwnProperty'',
      ''__lookupGetter__'', ''__lookupSetter__'', ''isPrototypeOf'',
      ''propertyIsEnumerable'', ''toString'', ''valueOf'', ''__proto__'',
      ''toLocaleString'']"

definition objGet :: "(string \<times> 'a) list \<Rightarrow> string \<Rightarrow> 'a lookup" where
  "objGet kvs k =
     (case map_of kvs k of
        Some v \<Rightarrow> Own v
      | None \<Rightarrow> if k \<in> set objectPrototypeKeys then Inherited k else Absent)"

section \<open>The remediation resolver\<close>

definition defaultRemediationText :: string where
  "defaultRemediationText = ''## Remediation\<newline>There is no remediation at the moment''"

text \<open>
  \<^verbatim>\<open>s.indexOf(pat)\<close> on a string: the first position at which \<open>pat\<close> starts, or
  \<open>-1\<close>. \<^verbatim>\<open>s.substring(i)\<close> for \<open>0 \<le> i \<le> length s\<close> is \<open>drop (nat i) s\<close>.
\<close>

fun indexOfFrom :: "string \<Rightarrow> string \<Rightarrow> int \<Rightarrow> int" where
  "indexOfFrom pat [] i = (if pat = [] then i else - 1)"
| "indexOfFrom pat (c # cs) i =
     (if prefix pat (c # cs) then i else indexOfFrom pat cs (i + 1))"

definition indexOf :: "string \<Rightarrow> string \<Rightarrow> int" where
  "indexOf s pat = indexOfFrom pat s 0"

definition substring :: "string \<Rightarrow> int \<Rightarrow> string" where
  "substring s i = drop (nat i) s"

text \<open>
  \<^verbatim>\<open>xs.indexOf(pat)\<close> on an array, for a string \<open>pat\<close>: the first position of an
  element that is strictly equal to it, that is, of that very string.
\<close>

fun arrayIndexOfFrom :: "string \<Rightarrow> jsval list \<Rightarrow> int \<Rightarrow> int" where
  "arrayIndexOfFrom pat [] i = - 1"
| "arrayIndexOfFrom pat (x # xs) i =
     (if x = JStr pat then i else arrayIndexOfFrom pat xs (i + 1))"

text \<open>
  The steps of \<^verbatim>\<open>hh.getRemediation\<close> after the search in the description: the versions
  of \<^verbatim>\<open>fixedIn\<close>, or the default text. \<open>marked\<close> is the markdown library.
\<close>

definition remediationFromFixedIn :: "(string \<Rightarrow> string) \<Rightarrow> jsval \<Rightarrow> error + string" where
  "remediationFromFixedIn marked fixedIn =
     (if isArray fixedIn \<and> truthy (readProp fixedIn ''length'') then
        (case fixedIn of JArr vs \<Rightarrow>
           (case joinJs '', '' vs of
              Inl e \<Rightarrow> Inl e
            | Inr fixedInJoined \<Rightarrow>
                Inr (marked (''## Remediation\<newline> Fixed in: '' @ fixedInJoined))))
      else Inr (marked defaultRemediationText))"

text \<open>
  \<^verbatim>\<open>hh.getRemediation(description, fixedIn)\<close>. The call \<^verbatim>\<open>description.indexOf(...)\<close>
  is the string's search when \<open>description\<close> is a string and the array's when it is an
  array (then \<^verbatim>\<open>description.substring\<close> is not a function); any other value has no
  callable \<^verbatim>\<open>indexOf\<close>, and \<^verbatim>\<open>null\<close> and \<^verbatim>\<open>undefined\<close> have no properties at all: the
  call raises a TypeError.
\<close>

definition getRemediation :: "(string \<Rightarrow> string) \<Rightarrow> jsval \<Rightarrow> jsval \<Rightarrow> error + string" where
  "getRemediation marked description fixedIn =
     (case description of
        JStr d \<Rightarrow>
          let index = indexOf d ''## Remediation''
          in if index > - 1 then Inr (marked (substring d index))
             else remediationFromFixedIn marked fixedIn
      | JArr xs \<Rightarrow>
          let index = arrayIndexOfFrom ''## Remediation'' xs 0
          in if index > - 1 then Inl TypeError
             else remediationFromFixedIn marked fixedIn
      | _ \<Rightarrow> Inl TypeError)"

section \<open>The vulnerability grouper\<close>

definition severityMap :: "(string \<times> jsval) list" where
  "severityMap = [(''low'', JNum 0), (''medium'', JNum 1), (''high'', JNum 2)]"

record metadata =
  id_field :: jsval
  title :: jsval
  name :: jsval
  info :: jsval
  severity :: jsval
  severityValue :: "jsval lookup"
  description :: jsval
  fixedIn :: jsval
  packageManager :: jsval

text \<open>
  \<^verbatim>\<open>metadataForVuln(vuln)\<close>. Its first read, \<^verbatim>\<open>vuln.id\<close>, raises on \<^verbatim>\<open>null\<close> and
  \<^verbatim>\<open>undefined\<close>; the only other step that may raise is the conversion of
  \<^verbatim>\<open>vuln.severity\<close> to the key of \<^verbatim>\<open>severityMap[vuln.severity]\<close>.
\<close>

definition metadataForVuln :: "jsval \<Rightarrow> error + metadata" where
  "metadataForVuln vuln =
     (if nullish vuln then Inl TypeError
      else (case jsToString (readProp vuln ''severity'') of
              Inl e \<Rightarrow> Inl e
            | Inr severityKey \<Rightarrow>
                Inr \<lparr>
                  id_field = readProp vuln ''id'',
                  title = readProp vuln ''title'',
                  name = readProp vuln ''name'',
                  info = jsOr (readProp vuln ''info'') (JStr ''No information available.''),
                  severity = readProp vuln ''severity'',
                  severityValue = objGet severityMap severityKey,
                  description = jsOr (readProp vuln ''description'')
                                     (JStr ''No description available.''),
                  fixedIn = readProp vuln ''fixedIn'',
                  packageManager = readProp vuln ''packageManager'' \<rparr>))"

record group =
  list :: "jsval list"
  metadata :: metadata

text \<open>
  The three locals of \<^verbatim>\<open>groupVulns\<close>. \<open>result\<close> is the object \<^verbatim>\<open>{}\<close> being filled:
  the list of its own properties in the order of their creation, which
  \<open>AList.update\<close> keeps as the assignment \<^verbatim>\<open>result[k] = g\<close> does (JavaScript
  enumerates keys that are array indices before the others; no function here
  enumerates \<open>result\<close>).
\<close>

record gstate =
  result :: "(string \<times> group) list"
  uniqueCount :: nat
  pathsCount :: nat

text \<open>
  The body of the callback of \<^verbatim>\<open>vulns.map\<close>. \<^verbatim>\<open>!result[vuln.id]\<close> holds when the read
  finds nothing. An own property is a group, an object; an inherited member is truthy
  too, but has no \<^verbatim>\<open>list\<close>, so that \<^verbatim>\<open>result[vuln.id].list.push\<close> reads \<^verbatim>\<open>push\<close> from
  \<^verbatim>\<open>undefined\<close>.
\<close>

definition groupStep :: "gstate \<Rightarrow> jsval \<Rightarrow> error + gstate" where
  "groupStep st vuln =
     (case getProp vuln ''id'' of
        Inl e \<Rightarrow> Inl e
      | Inr i \<Rightarrow>
          (case jsToString i of
             Inl e \<Rightarrow> Inl e
           | Inr k \<Rightarrow>
               (case objGet (result st) k of
                  Absent \<Rightarrow>
                    (case metadataForVuln vuln of
                       Inl e \<Rightarrow> Inl e
                     | Inr m \<Rightarrow>
                         Inr (st\<lparr> result := AList.update k \<lparr>list = [vuln], metadata = m\<rparr> (result st),
                                  pathsCount := pathsCount st + 1,
                                  uniqueCount := uniqueCount st + 1 \<rparr>))
                | Own g \<Rightarrow>
                    Inr (st\<lparr> result := AList.update k (g\<lparr>list := list g @ [vuln]\<rparr>) (result st),
                             pathsCount := pathsCount st + 1 \<rparr>)
                | Inherited n \<Rightarrow> Inl TypeError)))"

fun groupLoop :: "gstate \<Rightarrow> jsval list \<Rightarrow> error + gstate" where
  "groupLoop st [] = Inr st"
| "groupLoop st (vuln # vulns) =
     (case groupStep st vuln of Inl e \<Rightarrow> Inl e | Inr st' \<Rightarrow> groupLoop st' vulns)"

record grouped =
  vulnerabilities :: "(string \<times> group) list"
  vulnerabilitiesUniqueCount :: nat
  vulnerabilitiesPathsCount :: nat

definition returnGrouped :: "gstate \<Rightarrow> grouped" where
  "returnGrouped st =
     \<lparr> vulnerabilities = result st,
       vulnerabilitiesUniqueCount = uniqueCount st,
       vulnerabilitiesPathsCount = pathsCount st \<rparr>"

definition initialState :: gstate where
  "initialState = \<lparr> result = [], uniqueCount = 0, pathsCount = 0 \<rparr>"

definition groupVulns :: "jsval \<Rightarrow> error + grouped" where
  "groupVulns vulns =
     (if truthy vulns \<and> isArray vulns then
        (case vulns of JArr vs \<Rightarrow>
           (case groupLoop initialState vs of
              Inl e \<Rightarrow> Inl e
            | Inr st \<Rightarrow> Inr (returnGrouped st)))
      else Inr (returnGrouped initialState))"

text \<open>
  The property key under which \<^verbatim>\<open>groupVulns\<close> files an occurrence that is neither
  \<^verbatim>\<open>null\<close> nor \<^verbatim>\<open>undefined\<close> and whose identifier is \<open>stringable\<close>: \<^verbatim>\<open>vuln.id\<close> as
  the key of \<^verbatim>\<open>result[vuln.id]\<close>. It is the identifier itself when the identifier is a
  string.
\<close>

definition vulnKey :: "jsval \<Rightarrow> string" where
  "vulnKey vuln = toStr (readProp vuln ''id'')"

section \<open>The multi-report merger\<close>

text \<open>
  The operator \<^verbatim>\<open>+\<close>. An array or an object operand is first converted to a string,
  which may raise; beside a string the other operand is converted to a string and the
  two are concatenated; otherwise both are converted to numbers (\<^verbatim>\<open>undefined\<close> and
  \<^verbatim>\<open>NaN\<close> to \<^verbatim>\<open>NaN\<close>, here \<open>None\<close>) and added. \<open>addPrimitive\<close> is \<^verbatim>\<open>+\<close> on values
  that are neither arrays nor objects; its sum of two numbers is the sum of JavaScript
  when the two numbers and their sum are within \<open>2 ^ 53\<close>.
\<close>

fun toPrimitive :: "jsval \<Rightarrow> jsval" where
  "toPrimitive (JArr xs) = JStr (toStr (JArr xs))"
| "toPrimitive (JObj kvs) = JStr (toStr (JObj kvs))"
| "toPrimitive v = v"

fun isString :: "jsval \<Rightarrow> bool" where
  "isString (JStr s) = True"
| "isString v = False"

fun toNumber :: "jsval \<Rightarrow> int option" where
  "toNumber JNull = Some 0"
| "toNumber (JBool b) = Some (if b then 1 else 0)"
| "toNumber (JNum n) = Some n"
| "toNumber v = None"

definition addPrimitive :: "jsval \<Rightarrow> jsval \<Rightarrow> jsval" where
  "addPrimitive pa pb =
     (if isString pa \<or> isString pb then JStr (toStr pa @ toStr pb)
      else (case (toNumber pa, toNumber pb) of
              (Some x, Some y) \<Rightarrow> JNum (x + y)
            | _ \<Rightarrow> JNaN))"

definition jsAdd :: "jsval \<Rightarrow> jsval \<Rightarrow> error + jsval" where
  "jsAdd a b =
     (if stringable a \<and> stringable b then Inr (addPrimitive (toPrimitive a) (toPrimitive b))
      else Inl TypeError)"

text \<open>\<^verbatim>\<open>xs.map(f)\<close> and \<^verbatim>\<open>xs.reduce(f, init)\<close> with a callback that may raise.\<close>

fun mapE :: "('a \<Rightarrow> error + 'b) \<Rightarrow> 'a list \<Rightarrow> error + 'b list" where
  "mapE f [] = Inr []"
| "mapE f (x # xs) =
     (case f x of
        Inl e \<Rightarrow> Inl e
      | Inr y \<Rightarrow> (case mapE f xs of Inl e \<Rightarrow> Inl e | Inr ys \<Rightarrow> Inr (y # ys)))"

fun reduceE :: "('b \<Rightarrow> 'a \<Rightarrow> error + 'b) \<Rightarrow> 'b \<Rightarrow> 'a list \<Rightarrow> error + 'b" where
  "reduceE f acc [] = Inr acc"
| "reduceE f acc (x # xs) =
     (case f acc x of Inl e \<Rightarrow> Inl e | Inr acc' \<Rightarrow> reduceE f acc' xs)"

text \<open>\<^verbatim>\<open>project => project.vulnerabilities || []\<close>\<close>

definition vulnsOrEmpty :: "jsval \<Rightarrow> error + jsval" where
  "vulnsOrEmpty project =
     (case getProp project ''vulnerabilities'' of
        Inl e \<Rightarrow> Inl e
      | Inr v \<Rightarrow> Inr (jsOr v (JArr [])))"

text \<open>
  \<^verbatim>\<open>[].concat(...vulnsArrays)\<close>: an argument that is an array contributes its elements,
  any other argument contributes itself.
\<close>

fun concatSpread :: "jsval list \<Rightarrow> jsval list" where
  "concatSpread [] = []"
| "concatSpread (JArr xs # rest) = xs @ concatSpread rest"
| "concatSpread (v # rest) = v # concatSpread rest"

text \<open>
  The callbacks of the two \<^verbatim>\<open>reduce\<close> calls. \<^verbatim>\<open>||\<close> binds weaker than \<^verbatim>\<open>+\<close>:
  \<^verbatim>\<open>acc + item.dependencyCount || 0\<close> is \<^verbatim>\<open>(acc + item.dependencyCount) || 0\<close>.
\<close>

definition uniqueCountStep :: "jsval \<Rightarrow> jsval \<Rightarrow> error + jsval" where
  "uniqueCountStep acc item =
     (case getProp item ''vulnerabilities'' of
        Inl e \<Rightarrow> Inl e
      | Inr vs \<Rightarrow>
          (case getProp vs ''length'' of
             Inl e \<Rightarrow> Inl e
           | Inr n \<Rightarrow>
               (case jsAdd acc n of
                  Inl e \<Rightarrow> Inl e
                | Inr added \<Rightarrow> Inr (jsOr added (JNum 0)))))"

definition depCountStep :: "jsval \<Rightarrow> jsval \<Rightarrow> error + jsval" where
  "depCountStep acc item =
     (case getProp item ''dependencyCount'' of
        Inl e \<Rightarrow> Inl e
      | Inr d \<Rightarrow>
          (case jsAdd acc d of
             Inl e \<Rightarrow> Inl e
           | Inr added \<Rightarrow> Inr (jsOr added (JNum 0))))"

text \<open>\<^verbatim>\<open>project => ({ path: project.path, packageManager: project.packageManager })\<close>\<close>

definition pathOf :: "jsval \<Rightarrow> error + jsval" where
  "pathOf project =
     (case getProp project ''path'' of
        Inl e \<Rightarrow> Inl e
      | Inr p \<Rightarrow>
          (case getProp project ''packageManager'' of
             Inl e \<Rightarrow> Inl e
           | Inr pm \<Rightarrow> Inr (JObj [(''path'', p), (''packageManager'', pm)])))"

definition mergeData :: "jsval list \<Rightarrow> error + jsval" where
  "mergeData dataArray =
     (case mapE vulnsOrEmpty dataArray of
        Inl e \<Rightarrow> Inl e
      | Inr vulnsArrays \<Rightarrow>
          let aggregateVulnerabilities = concatSpread vulnsArrays in
          (case reduceE uniqueCountStep (JNum 0) dataArray of
             Inl e \<Rightarrow> Inl e
           | Inr totalUniqueCount \<Rightarrow>
               (case reduceE depCountStep (JNum 0) dataArray of
                  Inl e \<Rightarrow> Inl e
                | Inr totalDepCount \<Rightarrow>
                    (case mapE pathOf dataArray of
                       Inl e \<Rightarrow> Inl e
                     | Inr paths \<Rightarrow>
                         Inr (JObj
                           [(''vulnerabilities'', JArr aggregateVulnerabilities),
                            (''uniqueCount'', totalUniqueCount),
                            (''summary'',
                               addPrimitive (JNum (int (length aggregateVulnerabilities)))
                                            (JStr '' vulnerable dependency paths'')),
                            (''dependencyCount'', totalDepCount),
                            (''paths'', JArr paths)])))))"

section \<open>The pipeline\<close>

text \<open>
  The object \<open>data\<close> after the four assignments of \<^verbatim>\<open>generateTemplate\<close>: the four
  assigned properties, and the other own properties of \<open>data\<close> as they were.
\<close>

record renderContext =
  ctxVulnerabilities :: "(string \<times> group) list"
  ctxUniqueCount :: nat
  ctxSummary :: string
  ctxShowSummaryOnly :: bool
  ctxOther :: "(string \<times> jsval) list"

definition assignedKeys :: "string list" where
  "assignedKeys = [''vulnerabilities'', ''uniqueCount'', ''summary'', ''showSummaryOnly'']"

text \<open>
  Lines 95 to 99 of \<^verbatim>\<open>generateTemplate\<close>. The read \<^verbatim>\<open>data.vulnerabilities\<close> raises on
  \<^verbatim>\<open>null\<close> and \<^verbatim>\<open>undefined\<close>; the assignment \<^verbatim>\<open>data.vulnerabilities = ...\<close> raises on
  a boolean, a number or a string (the file is a module, hence strict code). An array
  does not arrive here: \<^verbatim>\<open>processData\<close> merges it.
\<close>

definition assembleContext :: "jsval \<Rightarrow> bool \<Rightarrow> error + renderContext" where
  "assembleContext data summary =
     (case getProp data ''vulnerabilities'' of
        Inl e \<Rightarrow> Inl e
      | Inr vulns \<Rightarrow>
          (case groupVulns vulns of
             Inl e \<Rightarrow> Inl e
           | Inr vulnMetadata \<Rightarrow>
               (case data of
                  JObj kvs \<Rightarrow>
                    Inr \<lparr> ctxVulnerabilities = vulnerabilities vulnMetadata,
                          ctxUniqueCount = vulnerabilitiesUniqueCount vulnMetadata,
                          ctxSummary = toStr (addPrimitive
                                                (JNum (int (vulnerabilitiesPathsCount vulnMetadata)))
                                                (JStr '' vulnerable dependency paths'')),
                          ctxShowSummaryOnly = summary,
                          ctxOther = filter (\<lambda>kv. fst kv \<notin> set assignedKeys) kvs \<rparr>
                | _ \<Rightarrow> Inl TypeError)))"

text \<open>
  The collaborators of the pipeline: the file system, the standard input, \<^verbatim>\<open>JSON.parse\<close>,
  the path of a partial beside the template
  (\<^verbatim>\<open>path.join(path.dirname(templatePath), `test-report.${name}.hbs`)\<close>) and Handlebars,
  which turns the text of the template, the registered partials and the context into
  the document. Each may fail.
\<close>

record env =
  readFile :: "string \<Rightarrow> error + string"
  stdin :: "error + string"
  jsonParse :: "string \<Rightarrow> error + jsval"
  peerPath :: "string \<Rightarrow> string \<Rightarrow> string"
  handlebars :: "string \<Rightarrow> (string \<times> string) list \<Rightarrow> renderContext \<Rightarrow> error + string"

text \<open>Lines 101 to 105 of \<^verbatim>\<open>generateTemplate\<close>.\<close>

definition renderTemplate :: "env \<Rightarrow> renderContext \<Rightarrow> string \<Rightarrow> error + string" where
  "renderTemplate en ctx template =
     (case readFile en (peerPath en template ''inline-css'') of
        Inl e \<Rightarrow> Inl e
      | Inr inlineCss \<Rightarrow>
          (case readFile en (peerPath en template ''vuln-card'') of
             Inl e \<Rightarrow> Inl e
           | Inr vulnCard \<Rightarrow>
               (case readFile en template of
                  Inl e \<Rightarrow> Inl e
                | Inr htmlTemplate \<Rightarrow>
                    handlebars en htmlTemplate [(''inline-css'', inlineCss), (''vuln-card'', vulnCard)] ctx)))"

definition generateTemplate :: "env \<Rightarrow> jsval \<Rightarrow> string \<Rightarrow> bool \<Rightarrow> error + string" where
  "generateTemplate en data template summary =
     (case assembleContext data summary of
        Inl e \<Rightarrow> Inl e
      | Inr ctx \<Rightarrow> renderTemplate en ctx template)"

text \<open>\<^verbatim>\<open>const mergedData = Array.isArray(data) ? mergeData(data) : data\<close>\<close>

definition mergedData :: "jsval \<Rightarrow> error + jsval" where
  "mergedData data = (case data of JArr dataArray \<Rightarrow> mergeData dataArray | _ \<Rightarrow> Inr data)"

definition processData :: "env \<Rightarrow> jsval \<Rightarrow> string \<Rightarrow> bool \<Rightarrow> error + string" where
  "processData en data template summary =
     (case mergedData data of
        Inl e \<Rightarrow> Inl e
      | Inr merged \<Rightarrow> generateTemplate en merged template summary)"

text \<open>
  \<^verbatim>\<open>SnykToHtml.runAsync\<close>. A rejected promise is \<open>Inl\<close>. The source is read from the
  file when \<open>source\<close> is truthy (given and not empty), from the standard input
  otherwise.
\<close>

definition runAsync :: "env \<Rightarrow> string option \<Rightarrow> string \<Rightarrow> bool \<Rightarrow> error + string" where
  "runAsync en source template summary =
     (let promisedString =
        (case source of
           Some path \<Rightarrow> if path \<noteq> [] then readFile en path else stdin en
         | None \<Rightarrow> stdin en)
      in case promisedString of
           Inl e \<Rightarrow> Inl e
         | Inr text \<Rightarrow>
             (case jsonParse en text of
                Inl e \<Rightarrow> Inl e
              | Inr data \<Rightarrow> processData en data template summary))"

text \<open>
  \<^verbatim>\<open>SnykToHtml.run\<close>: what the invocation does to the outside, in order. The callback
  is called with the document (\<open>Some e\<close>: it raises \<open>e\<close>); \<^verbatim>\<open>console.log\<close> is called
  with the reason of a rejection.
\<close>

datatype event = ReportCallback string | ConsoleLog error

definition run :: "env \<Rightarrow> string option \<Rightarrow> string \<Rightarrow> bool \<Rightarrow> (string \<Rightarrow> error option) \<Rightarrow> event list" where
  "run en dataSource hbsTemplate summary reportCallback =
     (case runAsync en dataSource hbsTemplate summary of
        Inl e \<Rightarrow> [ConsoleLog e]
      | Inr report \<Rightarrow>
          (case reportCallback report of
             None \<Rightarrow> [ReportCallback report]
           | Some e \<Rightarrow> [ReportCallback report, ConsoleLog e]))"

text \<open>
  Two environments in which an invocation fails: one where no file can be read, and one
  where the source is read but is not JSON. \<open>silentCallback\<close> is a callback that
  returns.
\<close>

definition unreadableEnv :: env where
  "unreadableEnv =
     \<lparr> readFile = (\<lambda>path. Inl IOError),
       stdin = Inl IOError,
       jsonParse = (\<lambda>text. Inl SyntaxError),
       peerPath = (\<lambda>template name. name),
       handlebars = (\<lambda>template partials ctx. Inl TemplateError) \<rparr>"

definition unparseableEnv :: env where
  "unparseableEnv =
     \<lparr> readFile = (\<lambda>path. Inr ''{''),
       stdin = Inr ''{'',
       jsonParse = (\<lambda>text. Inl SyntaxError),
       peerPath = (\<lambda>template name. name),
       handlebars = (\<lambda>template partials ctx. Inl TemplateError) \<rparr>"

definition silentCallback :: "string \<Rightarrow> error option" where
  "silentCallback report = None"

text \<open>
  An environment in which an invocation succeeds: every file is read, the source is the
  empty object, and the document is the summary of the context.
\<close>

definition workingEnv :: env where
  "workingEnv =
     \<lparr> readFile = (\<lambda>path. Inr ''{}''),
       stdin = Inr ''{}'',
       jsonParse = (\<lambda>text. Inr (JObj [])),
       peerPath = (\<lambda>template name. name),
       handlebars = (\<lambda>template partials ctx. Inr (ctxSummary ctx)) \<rparr>"

section \<open>Properties of the remediation resolver\<close>

lemma indexOfFrom_found:
  "j \<le> length s \<Longrightarrow> prefix pat (drop j s) \<Longrightarrow>
   \<exists>m\<le>j. indexOfFrom pat s i = i + int m \<and> prefix pat (drop m s)
      \<and> (\<forall>m'<m. \<not> prefix pat (drop m' s))"
proof (induction s arbitrary: i j)
  case Nil
  then show ?case by auto
next
  case (Cons c cs)
  show ?case
  proof (cases "prefix pat (c # cs)")
    case True
    then show ?thesis by (intro exI[of _ 0]) simp
  next
    case False
    with Cons.prems obtain j' where j': "j = Suc j'" by (cases j) auto
    with Cons.prems have "j' \<le> length cs" "prefix pat (drop j' cs)" by auto
    from Cons.IH[OF this, of "i + 1"] obtain m where
      m: "m \<le> j'" "indexOfFrom pat cs (i + 1) = i + 1 + int m" "prefix pat (drop m cs)"
         "\<forall>m'<m. \<not> prefix pat (drop m' cs)" by blast
    have "\<forall>m'<Suc m. \<not> prefix pat (drop m' (c # cs))"
    proof (intro allI impI)
      fix m' assume "m' < Suc m"
      then show "\<not> prefix pat (drop m' (c # cs))"
        using False m(4) by (cases m') auto
    qed
    with m False j' show ?thesis
      by (intro exI[of _ "Suc m"]) simp
  qed
qed

lemma indexOfFrom_none:
  "\<forall>j\<le>length s. \<not> prefix pat (drop j s) \<Longrightarrow> indexOfFrom pat s i = - 1"
proof (induction s arbitrary: i)
  case Nil
  then show ?case by auto
next
  case (Cons c cs)
  from Cons.prems have "\<not> prefix pat (c # cs)" by (metis drop0 le0)
  moreover have "\<forall>j\<le>length cs. \<not> prefix pat (drop j cs)"
  proof (intro allI impI)
    fix j assume "j \<le> length cs"
    then have "Suc j \<le> length (c # cs)" by simp
    with Cons.prems have "\<not> prefix pat (drop (Suc j) (c # cs))" by blast
    then show "\<not> prefix pat (drop j cs)" by simp
  qed
  ultimately show ?case using Cons.IH by simp
qed

lemma contains_iff_prefix_drop:
  "(\<exists>u v. s = u @ pat @ v) \<longleftrightarrow> (\<exists>j\<le>length s. prefix pat (drop j s))"
proof
  assume "\<exists>u v. s = u @ pat @ v"
  then obtain u v where "s = u @ pat @ v" by blast
  then have "length u \<le> length s" "prefix pat (drop (length u) s)" by auto
  then show "\<exists>j\<le>length s. prefix pat (drop j s)" by blast
next
  assume "\<exists>j\<le>length s. prefix pat (drop j s)"
  then obtain j where "prefix pat (drop j s)" by blast
  then obtain v where "drop j s = pat @ v" by (auto simp: prefix_def)
  then have "s = take j s @ pat @ v" by (metis append_take_drop_id)
  then show "\<exists>u v. s = u @ pat @ v" by blast
qed

lemma indexOf_none_iff:
  "indexOf s pat = - 1 \<longleftrightarrow> \<not> (\<exists>u v. s = u @ pat @ v)"
proof
  assume a: "indexOf s pat = - 1"
  show "\<not> (\<exists>u v. s = u @ pat @ v)"
  proof
    assume "\<exists>u v. s = u @ pat @ v"
    then obtain j where "j \<le> length s" "prefix pat (drop j s)"
      unfolding contains_iff_prefix_drop by blast
    from indexOfFrom_found[OF this, of 0] a show False
      by (auto simp: indexOf_def)
  qed
next
  assume "\<not> (\<exists>u v. s = u @ pat @ v)"
  then show "indexOf s pat = - 1"
    unfolding contains_iff_prefix_drop by (simp add: indexOf_def indexOfFrom_none)
qed

lemma joinJs_strings: "joinJs sep (map JStr vs) = Inr (joinWith sep vs)"
  by (simp add: joinJs_def comp_def list_all_iff)


text \<open>
  C6. A description that contains the heading \<^verbatim>\<open>## Remediation\<close> decides the result
  alone: it is the description from the first occurrence of the heading on, passed
  through the markdown library, whatever \<open>fixedIn\<close> is.
\<close>

theorem getRemediation_description_first:
  assumes "d = u @ ''## Remediation'' @ v"
  shows "\<exists>i. indexOf d ''## Remediation'' = int i \<and> i \<le> length u
           \<and> getRemediation marked (JStr d) fx = Inr (marked (drop i d))
           \<and> prefix ''## Remediation'' (drop i d)
           \<and> (\<forall>j<i. \<not> prefix ''## Remediation'' (drop j d))"
proof -
  from assms have "length u \<le> length d" "prefix ''## Remediation'' (drop (length u) d)"
    by auto
  from indexOfFrom_found[OF this, of 0] obtain m where
    m: "m \<le> length u" "indexOfFrom ''## Remediation'' d 0 = int m"
       "prefix ''## Remediation'' (drop m d)"
       "\<forall>m'<m. \<not> prefix ''## Remediation'' (drop m' d)" by auto
  then have "getRemediation marked (JStr d) fx = Inr (marked (drop m d))"
    by (simp add: getRemediation_def indexOf_def substring_def)
  with m show ?thesis by (auto simp: indexOf_def)
qed

theorem getRemediation_description_first_witness:
  "getRemediation id (JStr ''Overview ## Remediation Upgrade.'') (JArr [JStr ''1.2.3''])
     = Inr ''## Remediation Upgrade.''"
proof -
  have "''Overview ## Remediation Upgrade.'' = ''Overview '' @ ''## Remediation'' @ '' Upgrade.''"
    by simp
  from getRemediation_description_first[OF this, of id "JArr [JStr ''1.2.3'']"]
  show ?thesis by (simp add: getRemediation_def indexOf_def substring_def)
qed

text \<open>
  C1, as stated, fails: \<^verbatim>\<open>description.indexOf\<close> on an absent description raises.
\<close>

theorem getRemediation_absent_description_counterexample:
  "getRemediation id JUndefined (JArr [JStr ''1.2.3'', JStr ''1.2.4'']) = Inl TypeError
   \<and> getRemediation id JUndefined (JArr []) = Inl TypeError"
  by (simp add: getRemediation_def)

text \<open>
  C1, amended. The resolver has no case for an absent description: the call raises a
  TypeError. For a description that is a text without the heading (as the fallback
  description of the grouper is) it does not fail: a non-empty \<open>fixedIn\<close> gives the
  heading, \<^verbatim>\<open> Fixed in: \<close> and the versions joined by \<^verbatim>\<open>, \<close> in their order; an
  empty or absent one gives the default text; each passed through the markdown library.
\<close>

theorem getRemediation_without_section:
  assumes "\<not> (\<exists>u w. d = u @ ''## Remediation'' @ w)"
  shows "getRemediation marked (JStr d) (JArr (map JStr (v # vs)))
           = Inr (marked (''## Remediation\<newline> Fixed in: '' @ joinWith '', '' (v # vs)))
         \<and> getRemediation marked (JStr d) (JArr []) = Inr (marked defaultRemediationText)
         \<and> getRemediation marked (JStr d) JUndefined = Inr (marked defaultRemediationText)
         \<and> getRemediation marked (JStr d) JNull = Inr (marked defaultRemediationText)
         \<and> getRemediation marked JUndefined fx = Inl TypeError
         \<and> getRemediation marked JNull fx = Inl TypeError"
proof -
  from assms have idx: "indexOf d ''## Remediation'' = - 1"
    by (simp add: indexOf_none_iff)
  have j: "joinJs '', '' (JStr v # map JStr vs) = Inr (joinWith '', '' (v # vs))"
    using joinJs_strings[of "'', ''" "v # vs"] by simp
  show ?thesis
    by (simp add: getRemediation_def idx remediationFromFixedIn_def j)
qed

theorem getRemediation_without_section_witness:
  "getRemediation id (JStr ''No description available.'') (JArr [JStr ''1.2.3'', JStr ''1.2.4''])
     = Inr ''## Remediation\<newline> Fixed in: 1.2.3, 1.2.4''
   \<and> getRemediation id (JStr ''No description available.'') (JArr [])
     = Inr ''## Remediation\<newline>There is no remediation at the moment''"
proof -
  have "indexOf ''No description available.'' ''## Remediation'' = - 1"
    by (simp add: indexOf_def)
  then have "\<not> (\<exists>u w. ''No description available.'' = u @ ''## Remediation'' @ w)"
    using indexOf_none_iff by blast
  from getRemediation_without_section[OF this, of id "''1.2.3''" "[''1.2.4'']"]
  show ?thesis by (simp add: defaultRemediationText_def)
qed

section \<open>Properties of the vulnerability grouper\<close>

lemma objGet_Absent_iff:
  "objGet kvs k = Absent \<longleftrightarrow> k \<notin> fst ` set kvs \<and> k \<notin> set objectPrototypeKeys"
  by (cases "map_of kvs k") (auto simp: objGet_def map_of_eq_None_iff[symmetric])

lemma objGet_Own_iff: "objGet kvs k = Own g \<longleftrightarrow> map_of kvs k = Some g"
  by (auto simp: objGet_def split: option.splits)

lemma objGet_Inherited_iff:
  "objGet kvs k = Inherited n \<longleftrightarrow> n = k \<and> k \<notin> fst ` set kvs \<and> k \<in> set objectPrototypeKeys"
  by (cases "map_of kvs k") (auto simp: objGet_def map_of_eq_None_iff[symmetric])

lemma groupStep_nullish: "nullish v \<Longrightarrow> groupStep st v = Inl TypeError"
  by (simp add: groupStep_def getProp_def)

lemma groupStep_unstringable:
  "\<not> stringable (readProp v ''id'') \<Longrightarrow> groupStep st v = Inl TypeError"
  by (simp add: groupStep_def getProp_def jsToString_def)

lemma metadataForVuln_Inr_iff:
  "(\<exists>m. metadataForVuln v = Inr m) \<longleftrightarrow> \<not> nullish v \<and> stringable (readProp v ''severity'')"
  by (simp add: metadataForVuln_def jsToString_def)

lemma groupStep_new:
  assumes "\<not> nullish v" "stringable (readProp v ''id'')"
    and "objGet (result st) (vulnKey v) = Absent"
  shows "groupStep st v =
           (case metadataForVuln v of
              Inl e \<Rightarrow> Inl e
            | Inr m \<Rightarrow>
                Inr (st\<lparr> result := AList.update (vulnKey v) \<lparr>list = [v], metadata = m\<rparr> (result st),
                         pathsCount := pathsCount st + 1,
                         uniqueCount := uniqueCount st + 1 \<rparr>))"
  using assms
  by (simp add: groupStep_def getProp_def vulnKey_def jsToString_def split: sum.splits)

lemma groupStep_seen:
  assumes "\<not> nullish v" "stringable (readProp v ''id'')"
    and "objGet (result st) (vulnKey v) = Own g"
  shows "groupStep st v = Inr (st\<lparr> result := AList.update (vulnKey v) (g\<lparr>list := list g @ [v]\<rparr>) (result st),
                                   pathsCount := pathsCount st + 1 \<rparr>)"
  using assms by (simp add: groupStep_def getProp_def vulnKey_def jsToString_def)

lemma groupStep_inherited:
  assumes "\<not> nullish v" "stringable (readProp v ''id'')"
    and "objGet (result st) (vulnKey v) = Inherited n"
  shows "groupStep st v = Inl TypeError"
  using assms by (simp add: groupStep_def getProp_def vulnKey_def jsToString_def)

lemma groupStep_error: "groupStep st v = Inl e \<Longrightarrow> e = TypeError"
  by (auto simp: groupStep_def getProp_def metadataForVuln_def jsToString_def
           split: if_splits sum.splits lookup.splits)

lemma objGet_Own_mem: "objGet kvs k = Own g \<Longrightarrow> k \<in> fst ` set kvs"
  by (auto simp: objGet_Own_iff dest: map_of_SomeD intro: rev_image_eqI)

lemma groupStep_returns:
  assumes "\<not> nullish v" "stringable (readProp v ''id'')" "stringable (readProp v ''severity'')"
    and "vulnKey v \<notin> set objectPrototypeKeys"
  shows "\<exists>st'. groupStep st v = Inr st'"
proof (cases "objGet (result st) (vulnKey v)")
  case (Own g)
  with assms show ?thesis by (simp add: groupStep_seen)
next
  case (Inherited n)
  with assms show ?thesis by (simp add: objGet_Inherited_iff)
next
  case Absent
  from assms(1,3) obtain m where "metadataForVuln v = Inr m"
    using metadataForVuln_Inr_iff[of v] by blast
  with assms Absent show ?thesis by (simp add: groupStep_new)
qed

lemma groupStep_Inr_D:
  assumes "groupStep st v = Inr st'"
  shows "\<not> nullish v" and "stringable (readProp v ''id'')"
    and "vulnKey v \<in> fst ` set (result st) \<or> vulnKey v \<notin> set objectPrototypeKeys"
proof -
  from assms show nn: "\<not> nullish v" by (auto simp: groupStep_nullish)
  show sa: "stringable (readProp v ''id'')"
  proof (rule ccontr)
    assume "\<not> stringable (readProp v ''id'')"
    with assms show False by (simp add: groupStep_unstringable)
  qed
  show "vulnKey v \<in> fst ` set (result st) \<or> vulnKey v \<notin> set objectPrototypeKeys"
  proof (cases "objGet (result st) (vulnKey v)")
    case (Own g)
    then show ?thesis by (simp add: objGet_Own_mem)
  next
    case (Inherited n)
    with assms nn sa show ?thesis by (simp add: groupStep_inherited)
  next
    case Absent
    then show ?thesis by (simp add: objGet_Absent_iff)
  qed
qed

lemma length_alist_update:
  "length (AList.update k v al) = (if k \<in> fst ` set al then length al else Suc (length al))"
  by (induction al) auto

lemma groupStep_counts:
  assumes "groupStep st v = Inr st'"
  shows "pathsCount st' = pathsCount st + 1"
    and "fst ` set (result st') = insert (vulnKey v) (fst ` set (result st))"
    and "distinct (map fst (result st)) \<Longrightarrow> distinct (map fst (result st'))"
    and "uniqueCount st = length (result st) \<Longrightarrow> uniqueCount st' = length (result st')"
    and "\<not> nullish v"
    and "vulnKey v \<in> fst ` set (result st) \<or> vulnKey v \<notin> set objectPrototypeKeys"
    and "stringable (readProp v ''id'')"
proof -
  note d = groupStep_Inr_D[OF assms]
  from d have nn: "\<not> nullish v" and sa: "stringable (readProp v ''id'')" and
    ok: "vulnKey v \<in> fst ` set (result st) \<or> vulnKey v \<notin> set objectPrototypeKeys"
    by auto
  have "pathsCount st' = pathsCount st + 1
        \<and> fst ` set (result st') = insert (vulnKey v) (fst ` set (result st))
        \<and> (distinct (map fst (result st)) \<longrightarrow> distinct (map fst (result st')))
        \<and> (uniqueCount st = length (result st) \<longrightarrow> uniqueCount st' = length (result st'))"
  proof (cases "objGet (result st) (vulnKey v)")
    case (Own g)
    then have mem: "vulnKey v \<in> fst ` set (result st)" by (rule objGet_Own_mem)
    from assms groupStep_seen[OF nn sa Own]
    have st': "st' = st\<lparr> result := AList.update (vulnKey v) (g\<lparr>list := list g @ [v]\<rparr>) (result st),
                          pathsCount := pathsCount st + 1 \<rparr>" by simp
    have "fst ` set (result st') = insert (vulnKey v) (fst ` set (result st))"
      unfolding st' by (simp add: dom_update)
    moreover have "length (result st') = length (result st)"
      unfolding st' using mem by (simp add: length_alist_update)
    moreover have "uniqueCount st' = uniqueCount st" "pathsCount st' = pathsCount st + 1"
      unfolding st' by simp_all
    moreover have "distinct (map fst (result st)) \<longrightarrow> distinct (map fst (result st'))"
      unfolding st' by (simp add: distinct_update)
    ultimately show ?thesis by simp
  next
    case (Inherited n)
    with assms nn sa show ?thesis by (simp add: groupStep_inherited)
  next
    case Absent
    then have mem: "vulnKey v \<notin> fst ` set (result st)" by (simp add: objGet_Absent_iff)
    from assms groupStep_new[OF nn sa Absent] obtain m where
      st': "st' = st\<lparr> result := AList.update (vulnKey v) \<lparr>list = [v], metadata = m\<rparr> (result st),
                        pathsCount := pathsCount st + 1,
                        uniqueCount := uniqueCount st + 1 \<rparr>"
      by (auto split: sum.splits)
    have "fst ` set (result st') = insert (vulnKey v) (fst ` set (result st))"
      unfolding st' by (simp add: dom_update)
    moreover have "length (result st') = Suc (length (result st))"
      unfolding st' using mem by (simp add: length_alist_update)
    moreover have "uniqueCount st' = Suc (uniqueCount st)" "pathsCount st' = pathsCount st + 1"
      unfolding st' by simp_all
    moreover have "distinct (map fst (result st)) \<longrightarrow> distinct (map fst (result st'))"
      unfolding st' by (simp add: distinct_update)
    ultimately show ?thesis by simp
  qed
  with nn ok sa show "pathsCount st' = pathsCount st + 1"
    and "fst ` set (result st') = insert (vulnKey v) (fst ` set (result st))"
    and "distinct (map fst (result st)) \<Longrightarrow> distinct (map fst (result st'))"
    and "uniqueCount st = length (result st) \<Longrightarrow> uniqueCount st' = length (result st')"
    and "\<not> nullish v"
    and "vulnKey v \<in> fst ` set (result st) \<or> vulnKey v \<notin> set objectPrototypeKeys"
    and "stringable (readProp v ''id'')"
    by auto
qed

lemma groupStep_groups:
  assumes "groupStep st v = Inr st'"
  shows "k \<noteq> vulnKey v \<Longrightarrow> map_of (result st') k = map_of (result st) k"
    and "map_of (result st) (vulnKey v) = Some g \<Longrightarrow>
           map_of (result st') (vulnKey v) = Some (g\<lparr>list := list g @ [v]\<rparr>)"
    and "map_of (result st) (vulnKey v) = None \<Longrightarrow>
           \<exists>m. metadataForVuln v = Inr m
              \<and> map_of (result st') (vulnKey v) = Some \<lparr>list = [v], metadata = m\<rparr>"
proof -
  from groupStep_Inr_D[OF assms] have nn: "\<not> nullish v"
    and sa: "stringable (readProp v ''id'')" by auto
  have "(k \<noteq> vulnKey v \<longrightarrow> map_of (result st') k = map_of (result st) k)
      \<and> (map_of (result st) (vulnKey v) = Some g \<longrightarrow>
           map_of (result st') (vulnKey v) = Some (g\<lparr>list := list g @ [v]\<rparr>))
      \<and> (map_of (result st) (vulnKey v) = None \<longrightarrow>
           (\<exists>m. metadataForVuln v = Inr m
              \<and> map_of (result st') (vulnKey v) = Some \<lparr>list = [v], metadata = m\<rparr>))"
  proof (cases "objGet (result st) (vulnKey v)")
    case (Own g')
    then have "map_of (result st) (vulnKey v) = Some g'" by (simp add: objGet_Own_iff)
    with assms groupStep_seen[OF nn sa Own] show ?thesis
      by (auto simp: update_conv')
  next
    case (Inherited n)
    with assms nn sa show ?thesis by (simp add: groupStep_inherited)
  next
    case Absent
    then have "map_of (result st) (vulnKey v) = None"
      by (simp add: objGet_Absent_iff map_of_eq_None_iff)
    with assms groupStep_new[OF nn sa Absent] show ?thesis
      by (auto simp: update_conv' split: sum.splits)
  qed
  then show "k \<noteq> vulnKey v \<Longrightarrow> map_of (result st') k = map_of (result st) k"
    and "map_of (result st) (vulnKey v) = Some g \<Longrightarrow>
           map_of (result st') (vulnKey v) = Some (g\<lparr>list := list g @ [v]\<rparr>)"
    and "map_of (result st) (vulnKey v) = None \<Longrightarrow>
           \<exists>m. metadataForVuln v = Inr m
              \<and> map_of (result st') (vulnKey v) = Some \<lparr>list = [v], metadata = m\<rparr>"
    by auto
qed

lemma groupLoop_append:
  "groupLoop st (xs @ ys) =
     (case groupLoop st xs of Inl e \<Rightarrow> Inl e | Inr s \<Rightarrow> groupLoop s ys)"
  by (induction xs arbitrary: st) (auto split: sum.splits)

lemma groupLoop_total:
  assumes "\<forall>v\<in>set vs. \<not> nullish v \<and> stringable (readProp v ''id'')
             \<and> stringable (readProp v ''severity'') \<and> vulnKey v \<notin> set objectPrototypeKeys"
  shows "\<exists>st'. groupLoop st vs = Inr st'"
  using assms
proof (induction vs arbitrary: st)
  case Nil
  then show ?case by simp
next
  case (Cons v vs)
  then have "\<exists>s. groupStep st v = Inr s" by (simp add: groupStep_returns)
  then obtain s where "groupStep st v = Inr s" ..
  with Cons show ?case by simp
qed

lemma groupLoop_counts:
  assumes "groupLoop st vs = Inr st'"
    and "distinct (map fst (result st))"
    and "uniqueCount st = length (result st)"
    and "fst ` set (result st) \<inter> set objectPrototypeKeys = {}"
  shows "pathsCount st' = pathsCount st + length vs
       \<and> fst ` set (result st') = fst ` set (result st) \<union> vulnKey ` set vs
       \<and> distinct (map fst (result st'))
       \<and> uniqueCount st' = length (result st')
       \<and> (\<forall>v\<in>set vs. \<not> nullish v \<and> stringable (readProp v ''id'')
             \<and> vulnKey v \<notin> set objectPrototypeKeys)"
  using assms
proof (induction vs arbitrary: st)
  case Nil
  then show ?case by simp
next
  case (Cons v vs)
  from Cons.prems(1) obtain s where s: "groupStep st v = Inr s" "groupLoop s vs = Inr st'"
    by (auto split: sum.splits)
  note c = groupStep_counts[OF s(1)]
  from c(6) Cons.prems(4) have key: "vulnKey v \<notin> set objectPrototypeKeys" by auto
  have "fst ` set (result s) \<inter> set objectPrototypeKeys = {}"
    using c(2) key Cons.prems(4) by auto
  from Cons.IH[OF s(2) c(3)[OF Cons.prems(2)] c(4)[OF Cons.prems(3)] this]
  show ?case using c(1) c(2) c(5) c(7) key by auto
qed

lemma groupLoop_seen:
  assumes "groupLoop st vs = Inr st'" and "map_of (result st) k = Some g"
  shows "map_of (result st') k = Some (g\<lparr>list := list g @ filter (\<lambda>x. vulnKey x = k) vs\<rparr>)"
  using assms
proof (induction vs arbitrary: st g)
  case Nil
  then show ?case by simp
next
  case (Cons v vs)
  from Cons.prems(1) obtain s where s: "groupStep st v = Inr s" "groupLoop s vs = Inr st'"
    by (auto split: sum.splits)
  show ?case
  proof (cases "vulnKey v = k")
    case True
    with groupStep_groups(2)[OF s(1), of g] Cons.prems(2)
    have "map_of (result s) k = Some (g\<lparr>list := list g @ [v]\<rparr>)" by simp
    from Cons.IH[OF s(2) this] True show ?thesis by simp
  next
    case False
    with groupStep_groups(1)[OF s(1), of k] Cons.prems(2)
    have "map_of (result s) k = Some g" by simp
    from Cons.IH[OF s(2) this] False show ?thesis by simp
  qed
qed

lemma groupLoop_unseen:
  assumes "groupLoop st vs = Inr st'" and "map_of (result st) k = None"
    and "k \<notin> vulnKey ` set vs"
  shows "map_of (result st') k = None"
  using assms
proof (induction vs arbitrary: st)
  case Nil
  then show ?case by simp
next
  case (Cons v vs)
  from Cons.prems(1) obtain s where s: "groupStep st v = Inr s" "groupLoop s vs = Inr st'"
    by (auto split: sum.splits)
  from Cons.prems(3) have "k \<noteq> vulnKey v" "k \<notin> vulnKey ` set vs" by auto
  with groupStep_groups(1)[OF s(1), of k] Cons.prems(2) Cons.IH[OF s(2)]
  show ?case by simp
qed

lemma groupLoop_first:
  assumes "groupLoop st (pre @ v # post) = Inr st'"
    and "map_of (result st) (vulnKey v) = None"
    and "vulnKey v \<notin> vulnKey ` set pre"
  shows "\<exists>m. metadataForVuln v = Inr m
           \<and> map_of (result st') (vulnKey v)
               = Some \<lparr>list = filter (\<lambda>x. vulnKey x = vulnKey v) (pre @ v # post), metadata = m\<rparr>"
proof -
  from assms(1) obtain s1 s2 where
    s: "groupLoop st pre = Inr s1" "groupStep s1 v = Inr s2" "groupLoop s2 post = Inr st'"
    by (auto simp: groupLoop_append split: sum.splits)
  from groupLoop_unseen[OF s(1) assms(2) assms(3)]
  have "map_of (result s1) (vulnKey v) = None" .
  from groupStep_groups(3)[OF s(2) this] obtain m where
    m: "metadataForVuln v = Inr m"
       "map_of (result s2) (vulnKey v) = Some \<lparr>list = [v], metadata = m\<rparr>" by blast
  have "filter (\<lambda>x. vulnKey x = vulnKey v) pre = []"
    using assms(3) by (metis (mono_tags, lifting) filter_False imageI)
  with groupLoop_seen[OF s(3) m(2)] m(1) show ?thesis by simp
qed

lemma groupVulns_array:
  "groupVulns (JArr vs) =
     (case groupLoop initialState vs of Inl e \<Rightarrow> Inl e | Inr st \<Rightarrow> Inr (returnGrouped st))"
  by (simp add: groupVulns_def)

lemma groupLoop_initial:
  assumes "groupLoop initialState vs = Inr st"
  shows "pathsCount st = length vs"
    and "uniqueCount st = card (vulnKey ` set vs)"
    and "\<forall>v\<in>set vs. \<not> nullish v \<and> stringable (readProp v ''id'')
           \<and> vulnKey v \<notin> set objectPrototypeKeys"
proof -
  have "pathsCount st = pathsCount initialState + length vs
       \<and> fst ` set (result st) = fst ` set (result initialState) \<union> vulnKey ` set vs
       \<and> distinct (map fst (result st))
       \<and> uniqueCount st = length (result st)
       \<and> (\<forall>v\<in>set vs. \<not> nullish v \<and> stringable (readProp v ''id'')
             \<and> vulnKey v \<notin> set objectPrototypeKeys)"
    by (rule groupLoop_counts[OF assms]) (simp_all add: initialState_def)
  then have c: "pathsCount st = length vs" "set (map fst (result st)) = vulnKey ` set vs"
    "distinct (map fst (result st))" "uniqueCount st = length (map fst (result st))"
    "\<forall>v\<in>set vs. \<not> nullish v \<and> stringable (readProp v ''id'')
       \<and> vulnKey v \<notin> set objectPrototypeKeys"
    by (simp_all add: initialState_def)
  from c(1) show "pathsCount st = length vs" .
  from c(5) show "\<forall>v\<in>set vs. \<not> nullish v \<and> stringable (readProp v ''id'')
           \<and> vulnKey v \<notin> set objectPrototypeKeys" .
  from distinct_card[OF c(3)] c(2) c(4) show "uniqueCount st = card (vulnKey ` set vs)"
    by simp
qed

lemma card_keys_le:
  "card (vulnKey ` set vs) \<le> length vs
   \<and> (card (vulnKey ` set vs) = length vs \<longleftrightarrow> distinct (map vulnKey vs))"
proof -
  have "card (set (map vulnKey vs)) \<le> length (map vulnKey vs)" by (rule card_length)
  moreover have "card (set (map vulnKey vs)) = length (map vulnKey vs)
                 \<longleftrightarrow> distinct (map vulnKey vs)"
    using card_distinct distinct_card by blast
  ultimately show ?thesis by simp
qed

lemma groupVulns_returns:
  assumes "\<forall>v\<in>set vs. \<not> nullish v \<and> stringable (readProp v ''id'')
        \<and> stringable (readProp v ''severity'') \<and> vulnKey v \<notin> set objectPrototypeKeys"
  shows "\<exists>g. groupVulns (JArr vs) = Inr g
           \<and> vulnerabilitiesPathsCount g = length vs
           \<and> vulnerabilitiesUniqueCount g = card (vulnKey ` set vs)"
proof -
  from groupLoop_total[OF assms, of initialState] obtain st where
    st: "groupLoop initialState vs = Inr st" ..
  from groupLoop_initial(1,2)[OF st] st show ?thesis
    by (simp add: groupVulns_array returnGrouped_def)
qed

text \<open>
  C3. Whenever the grouper returns, its unique count is at most its paths count, and the
  two are equal exactly when no two occurrences have the same identifier (as a property
  key); the paths count is the number of occurrences and the unique count the number of
  distinct keys. It returns for every sequence of occurrences, none \<^verbatim>\<open>null\<close>, whose
  identifiers and severities convert to a property key and whose identifiers are not
  names of inherited members.
\<close>

theorem groupVulns_unique_le_paths:
  "(\<forall>r. groupVulns (JArr vs) = Inr r \<longrightarrow>
        vulnerabilitiesUniqueCount r \<le> vulnerabilitiesPathsCount r
      \<and> (vulnerabilitiesUniqueCount r = vulnerabilitiesPathsCount r
           \<longleftrightarrow> distinct (map vulnKey vs))
      \<and> vulnerabilitiesPathsCount r = length vs
      \<and> vulnerabilitiesUniqueCount r = card (vulnKey ` set vs))
   \<and> ((\<forall>v\<in>set vs. \<not> nullish v \<and> stringable (readProp v ''id'')
        \<and> stringable (readProp v ''severity'') \<and> vulnKey v \<notin> set objectPrototypeKeys)
        \<longrightarrow> (\<exists>r. groupVulns (JArr vs) = Inr r))"
proof (intro conjI allI impI)
  fix r assume r: "groupVulns (JArr vs) = Inr r"
  then obtain st where st: "groupLoop initialState vs = Inr st" "r = returnGrouped st"
    by (auto simp: groupVulns_array split: sum.splits)
  from groupLoop_initial(1,2)[OF st(1)] st(2)
  have p: "vulnerabilitiesPathsCount r = length vs"
    and u: "vulnerabilitiesUniqueCount r = card (vulnKey ` set vs)"
    by (simp_all add: returnGrouped_def)
  from p show "vulnerabilitiesPathsCount r = length vs" .
  from u show "vulnerabilitiesUniqueCount r = card (vulnKey ` set vs)" .
  from p u card_keys_le[of vs]
  show "vulnerabilitiesUniqueCount r \<le> vulnerabilitiesPathsCount r" by simp
  from p u card_keys_le[of vs]
  show "vulnerabilitiesUniqueCount r = vulnerabilitiesPathsCount r
          \<longleftrightarrow> distinct (map vulnKey vs)" by simp
next
  assume "\<forall>v\<in>set vs. \<not> nullish v \<and> stringable (readProp v ''id'')
        \<and> stringable (readProp v ''severity'') \<and> vulnKey v \<notin> set objectPrototypeKeys"
  from groupLoop_total[OF this, of initialState]
  show "\<exists>r. groupVulns (JArr vs) = Inr r" by (auto simp: groupVulns_array)
qed

theorem groupVulns_unique_le_paths_witness:
  "\<exists>r. groupVulns (JArr [JObj [(''id'', JStr ''SNYK-1'')], JObj [(''id'', JStr ''SNYK-2'')],
                          JObj [(''id'', JStr ''SNYK-1'')]]) = Inr r
      \<and> vulnerabilitiesUniqueCount r \<le> vulnerabilitiesPathsCount r
      \<and> vulnerabilitiesUniqueCount r \<noteq> vulnerabilitiesPathsCount r
      \<and> vulnerabilitiesPathsCount r = 3"
proof -
  let ?vs = "[JObj [(''id'', JStr ''SNYK-1'')], JObj [(''id'', JStr ''SNYK-2'')],
              JObj [(''id'', JStr ''SNYK-1'')]]"
  have ok: "\<forall>v\<in>set ?vs. \<not> nullish v \<and> stringable (readProp v ''id'')
        \<and> stringable (readProp v ''severity'') \<and> vulnKey v \<notin> set objectPrototypeKeys"
    by (simp add: vulnKey_def objectPrototypeKeys_def)
  have nd: "\<not> distinct (map vulnKey ?vs)" by (simp add: vulnKey_def)
  from groupVulns_unique_le_paths[of ?vs] ok nd show ?thesis by auto
qed

text \<open>
  C7. An input that is not an array (absent, \<^verbatim>\<open>null\<close>, or any other value) gives the
  empty mapping and both counts zero, as a value and not as an error.
\<close>

theorem groupVulns_not_a_sequence:
  "\<not> isArray vulns \<Longrightarrow>
     groupVulns vulns = Inr \<lparr> vulnerabilities = [], vulnerabilitiesUniqueCount = 0,
                             vulnerabilitiesPathsCount = 0 \<rparr>"
  by (simp add: groupVulns_def returnGrouped_def initialState_def)

theorem groupVulns_not_a_sequence_witness:
  "\<not> isArray JUndefined
   \<and> groupVulns JUndefined = Inr \<lparr> vulnerabilities = [], vulnerabilitiesUniqueCount = 0,
                                    vulnerabilitiesPathsCount = 0 \<rparr>
   \<and> \<not> isArray (JObj [(''id'', JStr ''SNYK-1'')])
   \<and> groupVulns (JObj [(''id'', JStr ''SNYK-1'')])
       = Inr \<lparr> vulnerabilities = [], vulnerabilitiesUniqueCount = 0,
               vulnerabilitiesPathsCount = 0 \<rparr>"
  using groupVulns_not_a_sequence[of JUndefined]
    groupVulns_not_a_sequence[of "JObj [(''id'', JStr ''SNYK-1'')]"]
  by simp

text \<open>
  C10. An identifier that names a member inherited from \<^verbatim>\<open>Object.prototype\<close> is not
  absent from the empty \<open>result\<close>: the first occurrence that bears it does not open a
  group, and the append raises a TypeError. So the grouper returns only for sequences
  none of whose identifiers is such a name.
\<close>

theorem groupVulns_inherited_identifier:
  "(k \<in> set objectPrototypeKeys \<longrightarrow>
       objGet (result initialState) k = (Inherited k :: group lookup)
     \<and> groupVulns (JArr (JObj [(''id'', JStr k)] # rest)) = Inl TypeError)
   \<and> (groupVulns (JArr vs) = Inr r \<longrightarrow>
        (\<forall>v\<in>set vs. vulnKey v \<notin> set objectPrototypeKeys))"
proof (intro conjI impI)
  assume k: "k \<in> set objectPrototypeKeys"
  then show i: "objGet (result initialState) k = (Inherited k :: group lookup)"
    by (simp add: objGet_def initialState_def)
  have "vulnKey (JObj [(''id'', JStr k)]) = k" by (simp add: vulnKey_def)
  with i have "groupStep initialState (JObj [(''id'', JStr k)]) = Inl TypeError"
    by (intro groupStep_inherited[where n = k]) simp_all
  then show "groupVulns (JArr (JObj [(''id'', JStr k)] # rest)) = Inl TypeError"
    by (simp add: groupVulns_array)
next
  assume "groupVulns (JArr vs) = Inr r"
  then obtain st where "groupLoop initialState vs = Inr st"
    by (auto simp: groupVulns_array split: sum.splits)
  from groupLoop_initial(3)[OF this]
  show "\<forall>v\<in>set vs. vulnKey v \<notin> set objectPrototypeKeys" by simp
qed

theorem groupVulns_inherited_identifier_witness:
  "groupVulns (JArr [JObj [(''id'', JStr ''constructor'')]]) = Inl TypeError
   \<and> groupVulns (JArr [JObj [(''id'', JStr ''toString'')], JObj [(''id'', JStr ''SNYK-1'')]])
       = Inl TypeError
   \<and> (\<exists>r. groupVulns (JArr [JObj [(''id'', JStr ''SNYK-1'')]]) = Inr r)
   \<and> vulnKey (JObj [(''id'', JStr ''SNYK-1'')]) \<notin> set objectPrototypeKeys"
proof -
  have c: "''constructor'' \<in> set objectPrototypeKeys" "''toString'' \<in> set objectPrototypeKeys"
    by (simp_all add: objectPrototypeKeys_def)
  have r: "groupVulns (JArr [JObj [(''id'', JStr ''SNYK-1'')]])
             = Inr (returnGrouped \<lparr> result = [(''SNYK-1'',
                 \<lparr> list = [JObj [(''id'', JStr ''SNYK-1'')]],
                   metadata = \<lparr> id_field = JStr ''SNYK-1'', title = JUndefined, name = JUndefined,
                     info = JStr ''No information available.'', severity = JUndefined,
                     severityValue = Absent, description = JStr ''No description available.'',
                     fixedIn = JUndefined, packageManager = JUndefined \<rparr> \<rparr>)],
                 uniqueCount = 1, pathsCount = 1 \<rparr>)"
    by (simp add: groupVulns_def initialState_def groupStep_def getProp_def objGet_def
          objectPrototypeKeys_def metadataForVuln_def jsOr_def severityMap_def jsToString_def)
  from groupVulns_inherited_identifier[of "''constructor''" "[]" "[JObj [(''id'', JStr ''SNYK-1'')]]"]
    groupVulns_inherited_identifier[of "''toString''" "[JObj [(''id'', JStr ''SNYK-1'')]]" "[]"]
    c r
  show ?thesis by simp
qed

lemma metadataForVuln_fallbacks:
  assumes "metadataForVuln v = Inr m"
  shows "info m = (if truthy (readProp v ''info'') then readProp v ''info''
                   else JStr ''No information available.'')"
    and "description m = (if truthy (readProp v ''description'') then readProp v ''description''
                          else JStr ''No description available.'')"
  using assms by (auto simp: metadataForVuln_def jsOr_def split: if_splits sum.splits)

text \<open>
  C2. Let \<open>v\<close> be the first occurrence that bears its identifier, in a sequence of
  occurrences, none \<^verbatim>\<open>null\<close>, whose identifiers and severities convert to a property
  key and whose identifiers are not names of inherited members.
  The grouper returns, and the group stored under the identifier holds the metadata of
  \<open>v\<close>, where an \<^verbatim>\<open>info\<close> or a \<^verbatim>\<open>description\<close> that is missing (or otherwise falsy) is
  replaced by its fixed text, and the list of all occurrences with that identifier, in
  their order. One more occurrence with the same identifier is appended to that list and
  leaves the metadata as they are.
\<close>

theorem groupVulns_metadata_of_first_occurrence:
  assumes "\<forall>x\<in>set (pre @ v # post). \<not> nullish x \<and> stringable (readProp x ''id'')
        \<and> stringable (readProp x ''severity'') \<and> vulnKey x \<notin> set objectPrototypeKeys"
    and "vulnKey v \<notin> vulnKey ` set pre"
  shows "\<exists>r g m.
           groupVulns (JArr (pre @ v # post)) = Inr r
         \<and> map_of (vulnerabilities r) (vulnKey v) = Some g
         \<and> metadataForVuln v = Inr m
         \<and> metadata g = m
         \<and> list g = filter (\<lambda>x. vulnKey x = vulnKey v) (pre @ v # post)
         \<and> info m = (if truthy (readProp v ''info'') then readProp v ''info''
                      else JStr ''No information available.'')
         \<and> description m = (if truthy (readProp v ''description'') then readProp v ''description''
                             else JStr ''No description available.'')
         \<and> (readProp v ''info'' = JUndefined \<longrightarrow> info m = JStr ''No information available.'')
         \<and> (readProp v ''description'' = JUndefined
              \<longrightarrow> description m = JStr ''No description available.'')
         \<and> (\<forall>w. \<not> nullish w \<and> stringable (readProp w ''id'') \<and> vulnKey w = vulnKey v \<longrightarrow>
               (\<exists>r' g'. groupVulns (JArr (pre @ v # post @ [w])) = Inr r'
                  \<and> map_of (vulnerabilities r') (vulnKey v) = Some g'
                  \<and> metadata g' = m
                  \<and> list g' = list g @ [w]))"
proof -
  let ?k = "vulnKey v"
  let ?vs = "pre @ v # post"
  have none: "map_of (result initialState) ?k = None" by (simp add: initialState_def)
  from groupLoop_total[OF assms(1), of initialState] obtain st where
    st: "groupLoop initialState ?vs = Inr st" ..
  from groupLoop_first[OF st none assms(2)] obtain m where
    m: "metadataForVuln v = Inr m"
       "map_of (result st) ?k = Some \<lparr>list = filter (\<lambda>x. vulnKey x = ?k) ?vs, metadata = m\<rparr>"
    by blast
  let ?g = "\<lparr>list = filter (\<lambda>x. vulnKey x = ?k) ?vs, metadata = m\<rparr>"
  have r: "groupVulns (JArr ?vs) = Inr (returnGrouped st)"
    using st by (simp add: groupVulns_array)
  have g: "map_of (vulnerabilities (returnGrouped st)) ?k = Some ?g"
    using m(2) by (simp add: returnGrouped_def)
  have ext: "\<exists>r' g'. groupVulns (JArr (pre @ v # post @ [w])) = Inr r'
                  \<and> map_of (vulnerabilities r') ?k = Some g'
                  \<and> metadata g' = m
                  \<and> list g' = list ?g @ [w]"
    if w: "\<not> nullish w \<and> stringable (readProp w ''id'') \<and> vulnKey w = ?k" for w
  proof -
    from m(2) w have own: "objGet (result st) (vulnKey w) = Own ?g"
      by (simp add: objGet_Own_iff)
    let ?st' = "st\<lparr> result := AList.update (vulnKey w) (?g\<lparr>list := list ?g @ [w]\<rparr>) (result st),
                     pathsCount := pathsCount st + 1 \<rparr>"
    from w own have step: "groupStep st w = Inr ?st'" by (simp add: groupStep_seen)
    have "groupLoop initialState (?vs @ [w])
            = (case groupLoop initialState ?vs of Inl e \<Rightarrow> Inl e | Inr s \<Rightarrow> groupLoop s [w])"
      by (rule groupLoop_append)
    also have "\<dots> = groupLoop st [w]" by (simp only: st sum.case)
    also have "\<dots> = Inr ?st'" by (simp only: groupLoop.simps step sum.case)
    finally have "groupLoop initialState (?vs @ [w]) = Inr ?st'" .
    then have "groupVulns (JArr (pre @ v # post @ [w])) = Inr (returnGrouped ?st')"
      by (simp add: groupVulns_array)
    moreover have "map_of (vulnerabilities (returnGrouped ?st')) ?k
                     = Some (?g\<lparr>list := list ?g @ [w]\<rparr>)"
      using w by (simp add: returnGrouped_def update_conv')
    ultimately show ?thesis by auto
  qed
  from metadataForVuln_fallbacks[OF m(1)]
  have fb: "info m = (if truthy (readProp v ''info'') then readProp v ''info''
                      else JStr ''No information available.'')"
    "description m = (if truthy (readProp v ''description'') then readProp v ''description''
                      else JStr ''No description available.'')" by simp_all
  then have fb': "readProp v ''info'' = JUndefined \<longrightarrow> info m = JStr ''No information available.''"
    "readProp v ''description'' = JUndefined
       \<longrightarrow> description m = JStr ''No description available.''" by simp_all
  show ?thesis
    apply (rule exI[of _ "returnGrouped st"])
    apply (rule exI[of _ ?g])
    apply (rule exI[of _ m])
    using r g m(1) fb fb' ext by simp
qed

theorem groupVulns_metadata_of_first_occurrence_witness:
  "\<exists>r g. groupVulns (JArr [JObj [(''id'', JStr ''SNYK-1''), (''title'', JStr ''ReDoS'')],
                            JObj [(''id'', JStr ''SNYK-2'')],
                            JObj [(''id'', JStr ''SNYK-1''), (''title'', JStr ''XSS''),
                                  (''info'', JStr ''later''), (''description'', JStr ''later'')]]) = Inr r
      \<and> map_of (vulnerabilities r) ''SNYK-1'' = Some g
      \<and> title (metadata g) = JStr ''ReDoS''
      \<and> info (metadata g) = JStr ''No information available.''
      \<and> description (metadata g) = JStr ''No description available.''
      \<and> list g = [JObj [(''id'', JStr ''SNYK-1''), (''title'', JStr ''ReDoS'')],
                   JObj [(''id'', JStr ''SNYK-1''), (''title'', JStr ''XSS''),
                         (''info'', JStr ''later''), (''description'', JStr ''later'')]]"
proof -
  let ?v = "JObj [(''id'', JStr ''SNYK-1''), (''title'', JStr ''ReDoS'')]"
  let ?post = "[JObj [(''id'', JStr ''SNYK-2'')],
                JObj [(''id'', JStr ''SNYK-1''), (''title'', JStr ''XSS''),
                      (''info'', JStr ''later''), (''description'', JStr ''later'')]]"
  have ok: "\<forall>x\<in>set ([] @ ?v # ?post). \<not> nullish x \<and> stringable (readProp x ''id'')
        \<and> stringable (readProp x ''severity'') \<and> vulnKey x \<notin> set objectPrototypeKeys"
    by (simp add: vulnKey_def objectPrototypeKeys_def)
  have first: "vulnKey ?v \<notin> vulnKey ` set []" by simp
  from groupVulns_metadata_of_first_occurrence[OF ok first] obtain r g m where
    h: "groupVulns (JArr ([] @ ?v # ?post)) = Inr r"
       "map_of (vulnerabilities r) (vulnKey ?v) = Some g"
       "metadataForVuln ?v = Inr m" "metadata g = m"
       "list g = filter (\<lambda>x. vulnKey x = vulnKey ?v) ([] @ ?v # ?post)"
       "readProp ?v ''info'' = JUndefined \<longrightarrow> info m = JStr ''No information available.''"
       "readProp ?v ''description'' = JUndefined
          \<longrightarrow> description m = JStr ''No description available.''"
    by blast
  have k: "vulnKey ?v = ''SNYK-1''" by (simp add: vulnKey_def)
  from h(3) have t: "title m = JStr ''ReDoS''"
    by (auto simp: metadataForVuln_def jsToString_def)
  from h(6,7) have i: "info m = JStr ''No information available.''"
    "description m = JStr ''No description available.''" by simp_all
  from h(5) have l: "list g = [?v, JObj [(''id'', JStr ''SNYK-1''), (''title'', JStr ''XSS''),
                         (''info'', JStr ''later''), (''description'', JStr ''later'')]]"
    by (simp add: vulnKey_def)
  from h(1,2,4) k t i l show ?thesis by auto
qed

section \<open>Properties of the multi-report merger\<close>

lemma readProp_array_not_nullish: "readProp v k = JArr xs \<Longrightarrow> \<not> nullish v"
  by (cases v) auto

lemma readProp_number_not_nullish: "readProp v k = JNum n \<Longrightarrow> \<not> nullish v"
  by (cases v) auto

lemma depCountStep_number:
  "readProp item ''dependencyCount'' = JNum d \<Longrightarrow>
     depCountStep (JNum acc) item = Inr (JNum (acc + d))"
  by (frule readProp_number_not_nullish)
     (simp add: depCountStep_def getProp_def jsAdd_def addPrimitive_def jsOr_def)

lemma uniqueCountStep_array:
  "readProp item ''vulnerabilities'' = JArr vs \<Longrightarrow>
     uniqueCountStep (JNum acc) item = Inr (JNum (acc + int (length vs)))"
  by (frule readProp_array_not_nullish)
     (simp add: uniqueCountStep_def getProp_def jsAdd_def addPrimitive_def jsOr_def)

lemma vulnsOrEmpty_array:
  "readProp item ''vulnerabilities'' = JArr vs \<Longrightarrow> vulnsOrEmpty item = Inr (JArr vs)"
  by (frule readProp_array_not_nullish)
     (simp add: vulnsOrEmpty_def getProp_def jsOr_def)

lemma pathOf_not_nullish:
  "\<not> nullish item \<Longrightarrow>
     pathOf item = Inr (JObj [(''path'', readProp item ''path''),
                              (''packageManager'', readProp item ''packageManager'')])"
  by (simp add: pathOf_def getProp_def)

text \<open>
  C4. For two reports that each carry a list of vulnerabilities and a dependency count,
  the merger returns an aggregate whose vulnerabilities are the first list followed by
  the second and whose dependency count is the sum of the two counts. The counts and
  their sum are integers of absolute value at most \<open>2 ^ 53\<close>, which a JavaScript number
  holds exactly and on which its \<^verbatim>\<open>+\<close> is the sum of integers.
\<close>

theorem mergeData_pair:
  assumes "readProp A ''vulnerabilities'' = JArr va"
    and "readProp A ''dependencyCount'' = JNum da"
    and "readProp B ''vulnerabilities'' = JArr vb"
    and "readProp B ''dependencyCount'' = JNum db"
    and "\<bar>da\<bar> \<le> 2 ^ 53" and "\<bar>db\<bar> \<le> 2 ^ 53" and "\<bar>da + db\<bar> \<le> 2 ^ 53"
  shows "\<exists>m. mergeData [A, B] = Inr m
           \<and> readProp m ''vulnerabilities'' = JArr (va @ vb)
           \<and> readProp m ''dependencyCount'' = JNum (da + db)"
proof -
  from assms have nn: "\<not> nullish A" "\<not> nullish B"
    by (auto dest: readProp_array_not_nullish)
  have v: "mapE vulnsOrEmpty [A, B] = Inr [JArr va, JArr vb]"
    using assms by (simp add: vulnsOrEmpty_array)
  have u: "reduceE uniqueCountStep (JNum 0) [A, B]
             = Inr (JNum (int (length va) + int (length vb)))"
    using assms by (simp add: uniqueCountStep_array)
  have d: "reduceE depCountStep (JNum 0) [A, B] = Inr (JNum (da + db))"
    using assms by (simp add: depCountStep_number)
  have p: "\<exists>ps. mapE pathOf [A, B] = Inr ps"
    using nn by (simp add: pathOf_not_nullish)
  then obtain ps where "mapE pathOf [A, B] = Inr ps" ..
  with v u d show ?thesis
    by (simp add: mergeData_def)
qed

theorem mergeData_pair_witness:
  "\<exists>m. mergeData [JObj [(''vulnerabilities'', JArr [JObj [(''id'', JStr ''SNYK-1'')]]),
                         (''dependencyCount'', JNum 5)],
                   JObj [(''vulnerabilities'', JArr [JObj [(''id'', JStr ''SNYK-2'')],
                                                     JObj [(''id'', JStr ''SNYK-1'')]]),
                         (''dependencyCount'', JNum 7)]] = Inr m
      \<and> readProp m ''vulnerabilities''
           = JArr [JObj [(''id'', JStr ''SNYK-1'')], JObj [(''id'', JStr ''SNYK-2'')],
                   JObj [(''id'', JStr ''SNYK-1'')]]
      \<and> readProp m ''dependencyCount'' = JNum 12"
  using mergeData_pair[of
      "JObj [(''vulnerabilities'', JArr [JObj [(''id'', JStr ''SNYK-1'')]]),
             (''dependencyCount'', JNum 5)]"
      "[JObj [(''id'', JStr ''SNYK-1'')]]" 5
      "JObj [(''vulnerabilities'', JArr [JObj [(''id'', JStr ''SNYK-2'')],
                                         JObj [(''id'', JStr ''SNYK-1'')]]),
             (''dependencyCount'', JNum 7)]"
      "[JObj [(''id'', JStr ''SNYK-2'')], JObj [(''id'', JStr ''SNYK-1'')]]" 7]
  by simp

text \<open>
  C5. The merger at two inputs with a missing field. A report without a list of
  vulnerabilities makes it raise a TypeError, at \<^verbatim>\<open>item.vulnerabilities.length\<close>. A
  report without a dependency count turns the running sum into \<^verbatim>\<open>NaN\<close>, which
  \<^verbatim>\<open>|| 0\<close> replaces by zero: the counts of the earlier reports are lost.
\<close>

theorem mergeData_missing_fields:
  "mergeData [JObj [(''dependencyCount'', JNum 5)]] = Inl TypeError
   \<and> mapE vulnsOrEmpty [JObj [(''dependencyCount'', JNum 5)]] = Inr [JArr []]
   \<and> (case mergeData [JObj [(''vulnerabilities'', JArr []), (''dependencyCount'', JNum 5)],
                       JObj [(''vulnerabilities'', JArr [])]] of
         Inl e \<Rightarrow> False
       | Inr m \<Rightarrow> readProp m ''dependencyCount'' = JNum 0)"
  by (simp add: mergeData_def vulnsOrEmpty_def uniqueCountStep_def depCountStep_def
        pathOf_def getProp_def jsOr_def jsAdd_def addPrimitive_def)

section \<open>Properties of the pipeline\<close>

lemma mapE_vulnsOrEmpty_arrays:
  "map (\<lambda>p. readProp p ''vulnerabilities'') reports = map JArr vss \<Longrightarrow>
     mapE vulnsOrEmpty reports = Inr (map JArr vss)"
proof (induction reports arbitrary: vss)
  case Nil
  then show ?case by simp
next
  case (Cons p ps)
  then obtain vs vss' where "vss = vs # vss'" by (cases vss) auto
  with Cons show ?case by (simp add: vulnsOrEmpty_array)
qed

lemma concatSpread_arrays: "concatSpread (map JArr vss) = concat vss"
  by (induction vss) simp_all

lemma reduceE_uniqueCountStep_arrays:
  "map (\<lambda>p. readProp p ''vulnerabilities'') reports = map JArr vss \<Longrightarrow>
     reduceE uniqueCountStep (JNum acc) reports
       = Inr (JNum (acc + int (length (concat vss))))"
proof (induction reports arbitrary: vss acc)
  case Nil
  then show ?case by simp
next
  case (Cons p ps)
  then obtain vs vss' where "vss = vs # vss'" by (cases vss) auto
  with Cons show ?case by (simp add: uniqueCountStep_array)
qed

lemma reports_not_nullish:
  "map (\<lambda>p. readProp p ''vulnerabilities'') reports = map JArr vss \<Longrightarrow>
     \<forall>p\<in>set reports. \<not> nullish p"
proof (induction reports arbitrary: vss)
  case Nil
  then show ?case by simp
next
  case (Cons p ps)
  then obtain vs vss' where "vss = vs # vss'" by (cases vss) auto
  with Cons show ?case by (auto dest: readProp_array_not_nullish)
qed

lemma stringable_jsOr_addPrimitive: "stringable (jsOr (addPrimitive a b) (JNum 0))"
  by (auto simp: jsOr_def addPrimitive_def split: option.splits)

lemma reduceE_depCountStep_total:
  assumes "\<forall>p\<in>set reports. \<not> nullish p \<and> stringable (readProp p ''dependencyCount'')"
    and "stringable acc"
  shows "\<exists>d. reduceE depCountStep acc reports = Inr d"
  using assms
proof (induction reports arbitrary: acc)
  case Nil
  then show ?case by simp
next
  case (Cons p ps)
  let ?acc' = "jsOr (addPrimitive (toPrimitive acc) (toPrimitive (readProp p ''dependencyCount'')))
                    (JNum 0)"
  from Cons.prems have "depCountStep acc p = Inr ?acc'"
    by (simp add: depCountStep_def getProp_def jsAdd_def)
  moreover have "\<exists>d. reduceE depCountStep ?acc' ps = Inr d"
    using Cons.prems by (intro Cons.IH) (simp_all add: stringable_jsOr_addPrimitive)
  ultimately show ?case by simp
qed

lemma mapE_pathOf_total:
  "\<forall>p\<in>set reports. \<not> nullish p \<Longrightarrow> \<exists>ps. mapE pathOf reports = Inr ps"
  by (induction reports) (auto simp: pathOf_not_nullish)

lemma mergeData_arrays:
  assumes "map (\<lambda>p. readProp p ''vulnerabilities'') reports = map JArr vss"
    and "\<forall>p\<in>set reports. stringable (readProp p ''dependencyCount'')"
  shows "\<exists>d ps. mergeData reports
           = Inr (JObj [(''vulnerabilities'', JArr (concat vss)),
                        (''uniqueCount'', JNum (int (length (concat vss)))),
                        (''summary'', addPrimitive (JNum (int (length (concat vss))))
                                                   (JStr '' vulnerable dependency paths'')),
                        (''dependencyCount'', d),
                        (''paths'', JArr ps)])"
proof -
  note nn = reports_not_nullish[OF assms(1)]
  from nn assms(2)
  have "\<forall>p\<in>set reports. \<not> nullish p \<and> stringable (readProp p ''dependencyCount'')"
    by simp
  from reduceE_depCountStep_total[OF this, of "JNum 0"] obtain d where
    d: "reduceE depCountStep (JNum 0) reports = Inr d" by auto
  from mapE_pathOf_total[OF nn] obtain ps where ps: "mapE pathOf reports = Inr ps" ..
  from mapE_vulnsOrEmpty_arrays[OF assms(1)] reduceE_uniqueCountStep_arrays[OF assms(1), of 0] d ps
  show ?thesis by (simp add: mergeData_def concatSpread_arrays Let_def)
qed

lemma summary_text:
  "toStr (addPrimitive (JNum (int n)) (JStr '' vulnerable dependency paths''))
     = showNat n @ '' vulnerable dependency paths''"
  by (simp add: addPrimitive_def showInt_def)

lemma filter_update_assigned:
  "k \<in> set assignedKeys \<Longrightarrow>
     filter (\<lambda>kv. fst kv \<notin> set assignedKeys) (AList.update k v kvs)
       = filter (\<lambda>kv. fst kv \<notin> set assignedKeys) kvs"
  by (induction kvs) auto

lemma assembleContext_overwrites:
  assumes "k = ''uniqueCount'' \<or> k = ''summary''"
  shows "assembleContext (JObj (AList.update k v kvs)) showOnly
           = assembleContext (JObj kvs) showOnly"
proof -
  from assms have a: "k \<in> set assignedKeys" and n: "k \<noteq> ''vulnerabilities''"
    by (auto simp: assignedKeys_def)
  from n have "readProp (JObj (AList.update k v kvs)) ''vulnerabilities''
                 = readProp (JObj kvs) ''vulnerabilities''"
    by (simp add: update_conv')
  with filter_update_assigned[OF a, of v kvs] show ?thesis
    by (simp add: assembleContext_def getProp_def split: sum.splits)
qed

text \<open>
  C8, as stated, fails: the context does not hold the merger's figure. For one report
  whose \<^verbatim>\<open>vulnerabilities\<close> is the text \<^verbatim>\<open>ab\<close>, the merger's \<^verbatim>\<open>uniqueCount\<close> is 2
  (the length of the text), while the context has the unique count 1, the summary of one
  path, and no other trace of the 2. For two reports with one occurrence each of the
  same identifier, the merger's \<^verbatim>\<open>uniqueCount\<close> is 2 and the context has the unique
  count 1; and the context is the same when the merger's \<^verbatim>\<open>uniqueCount\<close> and
  \<^verbatim>\<open>summary\<close> are replaced by other values: they do not feed it.
\<close>

theorem multi_report_merger_figure_counterexample:
  "mergedData (JArr [JObj [(''vulnerabilities'', JStr ''ab'')]])
     = Inr (JObj [(''vulnerabilities'', JArr [JStr ''ab'']),
                  (''uniqueCount'', JNum 2),
                  (''summary'', JStr ''1 vulnerable dependency paths''),
                  (''dependencyCount'', JNum 0),
                  (''paths'', JArr [JObj [(''path'', JUndefined), (''packageManager'', JUndefined)]])])
   \<and> map_sum id ctxUniqueCount
        (assembleContext
           (JObj [(''vulnerabilities'', JArr [JStr ''ab'']),
                  (''uniqueCount'', JNum 2),
                  (''summary'', JStr ''1 vulnerable dependency paths''),
                  (''dependencyCount'', JNum 0),
                  (''paths'', JArr [JObj [(''path'', JUndefined), (''packageManager'', JUndefined)]])])
           False) = Inr 1
   \<and> map_sum id ctxSummary
        (assembleContext
           (JObj [(''vulnerabilities'', JArr [JStr ''ab'']),
                  (''uniqueCount'', JNum 2),
                  (''summary'', JStr ''1 vulnerable dependency paths''),
                  (''dependencyCount'', JNum 0),
                  (''paths'', JArr [JObj [(''path'', JUndefined), (''packageManager'', JUndefined)]])])
           False) = Inr ''1 vulnerable dependency paths''
   \<and> map_sum id ctxOther
        (assembleContext
           (JObj [(''vulnerabilities'', JArr [JStr ''ab'']),
                  (''uniqueCount'', JNum 2),
                  (''summary'', JStr ''1 vulnerable dependency paths''),
                  (''dependencyCount'', JNum 0),
                  (''paths'', JArr [JObj [(''path'', JUndefined), (''packageManager'', JUndefined)]])])
           False)
       = Inr [(''dependencyCount'', JNum 0),
              (''paths'', JArr [JObj [(''path'', JUndefined), (''packageManager'', JUndefined)]])]
   \<and> mergedData (JArr [JObj [(''vulnerabilities'', JArr [JObj [(''id'', JStr ''SNYK-1'')]])],
                         JObj [(''vulnerabilities'', JArr [JObj [(''id'', JStr ''SNYK-1'')]])]])
     = Inr (JObj [(''vulnerabilities'', JArr [JObj [(''id'', JStr ''SNYK-1'')],
                                               JObj [(''id'', JStr ''SNYK-1'')]]),
                  (''uniqueCount'', JNum 2),
                  (''summary'', JStr ''2 vulnerable dependency paths''),
                  (''dependencyCount'', JNum 0),
                  (''paths'', JArr [JObj [(''path'', JUndefined), (''packageManager'', JUndefined)],
                                    JObj [(''path'', JUndefined), (''packageManager'', JUndefined)]])])
   \<and> map_sum id ctxUniqueCount
        (assembleContext
           (JObj [(''vulnerabilities'', JArr [JObj [(''id'', JStr ''SNYK-1'')],
                                               JObj [(''id'', JStr ''SNYK-1'')]]),
                  (''uniqueCount'', JNum 2),
                  (''summary'', JStr ''2 vulnerable dependency paths''),
                  (''dependencyCount'', JNum 0),
                  (''paths'', JArr [JObj [(''path'', JUndefined), (''packageManager'', JUndefined)],
                                    JObj [(''path'', JUndefined), (''packageManager'', JUndefined)]])])
           False) = Inr 1
   \<and> assembleContext
        (JObj [(''vulnerabilities'', JArr [JObj [(''id'', JStr ''SNYK-1'')],
                                            JObj [(''id'', JStr ''SNYK-1'')]]),
               (''uniqueCount'', JNum 999),
               (''summary'', JStr ''no summary''),
               (''dependencyCount'', JNum 0),
               (''paths'', JArr [JObj [(''path'', JUndefined), (''packageManager'', JUndefined)],
                                 JObj [(''path'', JUndefined), (''packageManager'', JUndefined)]])])
        False
     = assembleContext
        (JObj [(''vulnerabilities'', JArr [JObj [(''id'', JStr ''SNYK-1'')],
                                            JObj [(''id'', JStr ''SNYK-1'')]]),
               (''uniqueCount'', JNum 2),
               (''summary'', JStr ''2 vulnerable dependency paths''),
               (''dependencyCount'', JNum 0),
               (''paths'', JArr [JObj [(''path'', JUndefined), (''packageManager'', JUndefined)],
                                 JObj [(''path'', JUndefined), (''packageManager'', JUndefined)]])])
        False"
  by (simp add: mergedData_def mergeData_def vulnsOrEmpty_def uniqueCountStep_def
        depCountStep_def pathOf_def getProp_def jsOr_def jsAdd_def addPrimitive_def
        assembleContext_def groupVulns_def initialState_def returnGrouped_def groupStep_def
        jsToString_def objGet_def objectPrototypeKeys_def metadataForVuln_def severityMap_def
        assignedKeys_def showInt_def showNat.simps digit_def)

text \<open>
  C8, amended. In multi-report mode, with reports that each carry a list of
  vulnerabilities and a dependency count that \<^verbatim>\<open>+\<close> can convert (the occurrences none
  \<^verbatim>\<open>null\<close>, their identifiers and severities convertible to a property key, no
  identifier the name of an inherited member), the pipeline renders a context whose
  unique count and summary are the grouper's alone: the unique count is the number of
  distinct identifiers of the merged list, the summary says the grouper's paths count.
  The merger's \<^verbatim>\<open>uniqueCount\<close> and \<^verbatim>\<open>summary\<close> are overwritten and no property of the
  context holds them: the context is the same whatever their values. The number in the
  summary equals the merger's \<^verbatim>\<open>uniqueCount\<close> all the same, both being the sum of the
  lengths of the lists (at most \<open>2 ^ 53\<close> occurrences, as every array of the program
  has, so that the sum is exact).
\<close>

theorem multi_report_context_from_grouper:
  assumes "map (\<lambda>p. readProp p ''vulnerabilities'') reports = map JArr vss"
    and "\<forall>p\<in>set reports. stringable (readProp p ''dependencyCount'')"
    and "\<forall>v\<in>set (concat vss). \<not> nullish v \<and> stringable (readProp v ''id'')
           \<and> stringable (readProp v ''severity'') \<and> vulnKey v \<notin> set objectPrototypeKeys"
    and "int (length (concat vss)) \<le> 2 ^ 53"
  shows "\<exists>kvs g ctx.
           mergedData (JArr reports) = Inr (JObj kvs)
         \<and> readProp (JObj kvs) ''vulnerabilities'' = JArr (concat vss)
         \<and> groupVulns (JArr (concat vss)) = Inr g
         \<and> assembleContext (JObj kvs) showOnly = Inr ctx
         \<and> processData en (JArr reports) template showOnly = renderTemplate en ctx template
         \<and> ctxVulnerabilities ctx = vulnerabilities g
         \<and> ctxUniqueCount ctx = vulnerabilitiesUniqueCount g
         \<and> ctxUniqueCount ctx = card (vulnKey ` set (concat vss))
         \<and> ctxSummary ctx = showNat (vulnerabilitiesPathsCount g) @ '' vulnerable dependency paths''
         \<and> map_of (ctxOther ctx) ''uniqueCount'' = None
         \<and> map_of (ctxOther ctx) ''summary'' = None
         \<and> (\<forall>u s. assembleContext
                      (JObj (AList.update ''uniqueCount'' u (AList.update ''summary'' s kvs)))
                      showOnly = Inr ctx)
         \<and> readProp (JObj kvs) ''uniqueCount'' = JNum (\<Sum>vs\<leftarrow>vss. int (length vs))
         \<and> int (vulnerabilitiesPathsCount g) = (\<Sum>vs\<leftarrow>vss. int (length vs))"
proof -
  let ?n = "length (concat vss)"
  from mergeData_arrays[OF assms(1,2)] obtain d ps where
    m: "mergeData reports
           = Inr (JObj [(''vulnerabilities'', JArr (concat vss)),
                        (''uniqueCount'', JNum (int ?n)),
                        (''summary'', addPrimitive (JNum (int ?n)) (JStr '' vulnerable dependency paths'')),
                        (''dependencyCount'', d),
                        (''paths'', JArr ps)])" by blast
  let ?kvs = "[(''vulnerabilities'', JArr (concat vss)),
               (''uniqueCount'', JNum (int ?n)),
               (''summary'', addPrimitive (JNum (int ?n)) (JStr '' vulnerable dependency paths'')),
               (''dependencyCount'', d),
               (''paths'', JArr ps)]"
  have sum: "int ?n = (\<Sum>vs\<leftarrow>vss. int (length vs))"
    by (simp add: length_concat comp_def) (induction vss, simp_all)
  from groupVulns_returns[OF assms(3)] obtain g where
    g: "groupVulns (JArr (concat vss)) = Inr g"
       "vulnerabilitiesPathsCount g = ?n"
       "vulnerabilitiesUniqueCount g = card (vulnKey ` set (concat vss))" by blast
  let ?ctx = "\<lparr> ctxVulnerabilities = vulnerabilities g,
                ctxUniqueCount = vulnerabilitiesUniqueCount g,
                ctxSummary = showNat ?n @ '' vulnerable dependency paths'',
                ctxShowSummaryOnly = showOnly,
                ctxOther = [(''dependencyCount'', d), (''paths'', JArr ps)] \<rparr>"
  have ctx: "assembleContext (JObj ?kvs) showOnly = Inr ?ctx"
    using g(1,2) by (simp add: assembleContext_def getProp_def summary_text assignedKeys_def)
  have pd: "processData en (JArr reports) template showOnly = renderTemplate en ?ctx template"
    using m ctx by (simp add: processData_def mergedData_def generateTemplate_def)
  have ow: "assembleContext
              (JObj (AList.update ''uniqueCount'' u (AList.update ''summary'' s ?kvs)))
              showOnly = Inr ?ctx" for u s
    using ctx
    by (simp only: assembleContext_overwrites[of "''uniqueCount''"]
          assembleContext_overwrites[of "''summary''"] simp_thms)
  show ?thesis
    apply (rule exI[of _ ?kvs])
    apply (rule exI[of _ g])
    apply (rule exI[of _ ?ctx])
    using m g ctx pd sum ow by (simp add: mergedData_def)
qed

theorem multi_report_context_from_grouper_witness:
  "\<exists>kvs ctx. mergedData
            (JArr [JObj [(''vulnerabilities'', JArr [JObj [(''id'', JStr ''SNYK-1'')]])],
                   JObj [(''vulnerabilities'', JArr [JObj [(''id'', JStr ''SNYK-2'')],
                                                     JObj [(''id'', JStr ''SNYK-1'')]])]])
          = Inr (JObj kvs)
      \<and> readProp (JObj kvs) ''uniqueCount'' = JNum 3
      \<and> assembleContext (JObj kvs) False = Inr ctx
      \<and> ctxSummary ctx = ''3 vulnerable dependency paths''
      \<and> ctxUniqueCount ctx = 2
      \<and> assembleContext
           (JObj (AList.update ''uniqueCount'' (JNum 7) (AList.update ''summary'' (JStr []) kvs)))
           False = Inr ctx"
proof -
  let ?reports = "[JObj [(''vulnerabilities'', JArr [JObj [(''id'', JStr ''SNYK-1'')]])],
                   JObj [(''vulnerabilities'', JArr [JObj [(''id'', JStr ''SNYK-2'')],
                                                     JObj [(''id'', JStr ''SNYK-1'')]])]]"
  let ?vss = "[[JObj [(''id'', JStr ''SNYK-1'')]],
               [JObj [(''id'', JStr ''SNYK-2'')], JObj [(''id'', JStr ''SNYK-1'')]]]"
  have a: "map (\<lambda>p. readProp p ''vulnerabilities'') ?reports = map JArr ?vss" by simp
  have d: "\<forall>p\<in>set ?reports. stringable (readProp p ''dependencyCount'')" by simp
  have b: "\<forall>v\<in>set (concat ?vss). \<not> nullish v \<and> stringable (readProp v ''id'')
           \<and> stringable (readProp v ''severity'') \<and> vulnKey v \<notin> set objectPrototypeKeys"
    by (simp add: vulnKey_def objectPrototypeKeys_def)
  have c: "int (length (concat ?vss)) \<le> 2 ^ 53" by simp
  from multi_report_context_from_grouper[OF a d b c, where showOnly = False]
  obtain kvs and g :: grouped and ctx where
    h: "mergedData (JArr ?reports) = Inr (JObj kvs)"
       "assembleContext (JObj kvs) False = Inr ctx"
       "ctxSummary ctx = showNat (vulnerabilitiesPathsCount g) @ '' vulnerable dependency paths''"
       "int (vulnerabilitiesPathsCount g) = (\<Sum>vs\<leftarrow>?vss. int (length vs))"
       "ctxUniqueCount ctx = card (vulnKey ` set (concat ?vss))"
       "readProp (JObj kvs) ''uniqueCount'' = JNum (\<Sum>vs\<leftarrow>?vss. int (length vs))"
       "\<forall>u s. assembleContext
                 (JObj (AList.update ''uniqueCount'' u (AList.update ''summary'' s kvs)))
                 False = Inr ctx"
    by blast
  from h(4) have "vulnerabilitiesPathsCount g = 3" by simp
  with h(3) have s: "ctxSummary ctx = ''3 vulnerable dependency paths''"
    by (simp add: showNat.simps digit_def)
  have "vulnKey ` set (concat ?vss) = {''SNYK-1'', ''SNYK-2''}"
    by (auto simp: vulnKey_def)
  with h(5) have u: "ctxUniqueCount ctx = 2" by simp
  from h(6) have m: "readProp (JObj kvs) ''uniqueCount'' = JNum 3" by simp
  from h(7) have o: "assembleContext
           (JObj (AList.update ''uniqueCount'' (JNum 7) (AList.update ''summary'' (JStr []) kvs)))
           False = Inr ctx" by blast
  from h(1,2) s u m o show ?thesis by blast
qed

lemma renderTemplate_unreadable_template:
  "readFile en template = Inl e \<Longrightarrow> \<exists>e'. renderTemplate en ctx template = Inl e'"
  by (simp add: renderTemplate_def split: sum.splits)

lemma assembleContext_sparse:
  "\<not> isArray (readProp (JObj kvs) ''vulnerabilities'') \<Longrightarrow>
     assembleContext (JObj kvs) showOnly
       = Inr \<lparr> ctxVulnerabilities = [], ctxUniqueCount = 0,
               ctxSummary = ''0 vulnerable dependency paths'',
               ctxShowSummaryOnly = showOnly,
               ctxOther = filter (\<lambda>kv. fst kv \<notin> set assignedKeys) kvs \<rparr>"
  by (simp add: assembleContext_def getProp_def groupVulns_def returnGrouped_def
        initialState_def addPrimitive_def showInt_def showNat.simps digit_def)

text \<open>
  C9, as stated, fails: when the source cannot be read, or is not JSON, the callback is
  not called at all; the error goes to \<^verbatim>\<open>console.log\<close>.
\<close>

theorem run_failure_counterexample:
  "runAsync unreadableEnv (Some ''report.json'') ''test-report.hbs'' False = Inl IOError
   \<and> run unreadableEnv (Some ''report.json'') ''test-report.hbs'' False silentCallback
       = [ConsoleLog IOError]
   \<and> runAsync unparseableEnv None ''test-report.hbs'' False = Inl SyntaxError
   \<and> run unparseableEnv None ''test-report.hbs'' False silentCallback
       = [ConsoleLog SyntaxError]"
  by (simp add: run_def runAsync_def unreadableEnv_def unparseableEnv_def)

text \<open>
  C9, amended. A failure gives no document: the callback is not called, and
  \<^verbatim>\<open>console.log\<close> receives the error. An unreadable source, a source that is not JSON
  and an unreadable template are failures. A success calls the callback once, with the
  document. Scan data that are an object without a list of vulnerabilities are not a
  failure: their context has no groups and zero counts.
\<close>

theorem run_outcome:
  "(runAsync en src template showOnly = Inl e \<longrightarrow>
      run en src template showOnly reportCallback = [ConsoleLog e])
   \<and> (runAsync en src template showOnly = Inr report \<longrightarrow>
        run en src template showOnly reportCallback
          = ReportCallback report # (case reportCallback report of None \<Rightarrow> [] | Some e' \<Rightarrow> [ConsoleLog e']))
   \<and> (path \<noteq> [] \<and> readFile en path = Inl e \<longrightarrow>
        runAsync en (Some path) template showOnly = Inl e)
   \<and> (stdin en = Inl e \<longrightarrow> runAsync en None template showOnly = Inl e)
   \<and> (path \<noteq> [] \<and> readFile en path = Inr content \<and> jsonParse en content = Inl e \<longrightarrow>
        runAsync en (Some path) template showOnly = Inl e)
   \<and> (readFile en template = Inl e \<longrightarrow> (\<exists>e'. renderTemplate en ctx template = Inl e'))
   \<and> (\<not> isArray (readProp (JObj kvs) ''vulnerabilities'') \<longrightarrow>
        processData en (JObj kvs) template showOnly
          = renderTemplate en
              \<lparr> ctxVulnerabilities = [], ctxUniqueCount = 0,
                ctxSummary = ''0 vulnerable dependency paths'',
                ctxShowSummaryOnly = showOnly,
                ctxOther = filter (\<lambda>kv. fst kv \<notin> set assignedKeys) kvs \<rparr>
              template)"
proof (intro conjI impI)
  assume "runAsync en src template showOnly = Inl e"
  then show "run en src template showOnly reportCallback = [ConsoleLog e]"
    by (simp add: run_def)
next
  assume "runAsync en src template showOnly = Inr report"
  then show "run en src template showOnly reportCallback
          = ReportCallback report # (case reportCallback report of None \<Rightarrow> [] | Some e' \<Rightarrow> [ConsoleLog e'])"
    by (simp add: run_def split: option.splits)
next
  assume "path \<noteq> [] \<and> readFile en path = Inl e"
  then show "runAsync en (Some path) template showOnly = Inl e"
    by (simp add: runAsync_def)
next
  assume "stdin en = Inl e"
  then show "runAsync en None template showOnly = Inl e"
    by (simp add: runAsync_def)
next
  assume "path \<noteq> [] \<and> readFile en path = Inr content \<and> jsonParse en content = Inl e"
  then show "runAsync en (Some path) template showOnly = Inl e"
    by (simp add: runAsync_def)
next
  assume "readFile en template = Inl e"
  then show "\<exists>e'. renderTemplate en ctx template = Inl e'"
    by (rule renderTemplate_unreadable_template)
next
  assume "\<not> isArray (readProp (JObj kvs) ''vulnerabilities'')"
  from assembleContext_sparse[OF this, of showOnly]
  show "processData en (JObj kvs) template showOnly
          = renderTemplate en
              \<lparr> ctxVulnerabilities = [], ctxUniqueCount = 0,
                ctxSummary = ''0 vulnerable dependency paths'',
                ctxShowSummaryOnly = showOnly,
                ctxOther = filter (\<lambda>kv. fst kv \<notin> set assignedKeys) kvs \<rparr>
              template"
    by (simp add: processData_def mergedData_def generateTemplate_def)
qed


theorem run_outcome_witness:
  "run unreadableEnv (Some ''report.json'') ''test-report.hbs'' False silentCallback
     = [ConsoleLog IOError]
   \<and> runAsync unreadableEnv None ''test-report.hbs'' False = Inl IOError
   \<and> runAsync unparseableEnv (Some ''report.json'') ''test-report.hbs'' False = Inl SyntaxError
   \<and> run workingEnv (Some ''report.json'') ''test-report.hbs'' False silentCallback
       = [ReportCallback ''0 vulnerable dependency paths'']"
proof -
  have f: "runAsync unreadableEnv (Some ''report.json'') ''test-report.hbs'' False = Inl IOError"
    by (simp add: runAsync_def unreadableEnv_def)
  have s: "stdin unreadableEnv = Inl IOError" by (simp add: unreadableEnv_def)
  have p: "''report.json'' \<noteq> [] \<and> readFile unparseableEnv ''report.json'' = Inr ''{''
           \<and> jsonParse unparseableEnv ''{'' = Inl SyntaxError"
    by (simp add: unparseableEnv_def)
  have w: "runAsync workingEnv (Some ''report.json'') ''test-report.hbs'' False
             = Inr ''0 vulnerable dependency paths''"
    by (simp add: runAsync_def workingEnv_def processData_def mergedData_def
          generateTemplate_def assembleContext_def getProp_def groupVulns_def
          returnGrouped_def initialState_def renderTemplate_def addPrimitive_def showInt_def
          showNat.simps digit_def)
  have c: "silentCallback ''0 vulnerable dependency paths'' = None"
    by (simp add: silentCallback_def)
  from run_outcome[where en = unreadableEnv and src = "Some ''report.json''"
      and template = "''test-report.hbs''" and showOnly = False and e = IOError
      and reportCallback = silentCallback] f s
  have 1: "run unreadableEnv (Some ''report.json'') ''test-report.hbs'' False silentCallback
             = [ConsoleLog IOError]"
    and 2: "runAsync unreadableEnv None ''test-report.hbs'' False = Inl IOError"
    by simp_all
  from run_outcome[where en = unparseableEnv and path = "''report.json''" and content = "''{''"
      and template = "''test-report.hbs''" and showOnly = False and e = SyntaxError] p
  have 3: "runAsync unparseableEnv (Some ''report.json'') ''test-report.hbs'' False
             = Inl SyntaxError"
    by simp
  from run_outcome[where en = workingEnv and src = "Some ''report.json''"
      and template = "''test-report.hbs''" and showOnly = False
      and report = "''0 vulnerable dependency paths''"
      and reportCallback = silentCallback] w c
  have 4: "run workingEnv (Some ''report.json'') ''test-report.hbs'' False silentCallback
             = [ReportCallback ''0 vulnerable dependency paths'']"
    by simp
  from 1 2 3 4 show ?thesis by simp
qed

end
